theory Spec2Isabelle
  imports Complex_Main "HOL-Library.Multiset"
begin

section \<open>Common conventions\<close>

text \<open>
  The Python sources compute with \<open>float\<close> columns of a pandas DataFrame (or with
  \<open>float(...)\<close> of CSV cells).  Numbers are modelled as exact rationals; the only
  rounding that is kept is the one the code asks for explicitly (\<open>round(x, 6)\<close>,
  \<open>round(x, 2)\<close>), which Python performs to the nearest value with ties going to the
  even neighbour.  A float sum, product or quotient differs from the exact one by a few
  units of its seventeenth significant digit at most, so the value the code rounds to can
  differ from the one computed here only when the exact value lies that close to a
  decimal tie, and then by one unit of the last digit kept; a result that bounds
  accumulated rounding error is stated with room for that unit.  Text is a list of
  Unicode code points, as a Python \<open>str\<close> is.
\<close>

type_synonym ustring = "nat list"

definition round_half_even :: "rat \<Rightarrow> int" where
  "round_half_even x =
     (let f = \<lfloor>x\<rfloor>; d = x - of_int f
      in if d < 1 / 2 then f
         else if 1 / 2 < d then f + 1
         else if even f then f else f + 1)"

definition py_round :: "rat \<Rightarrow> nat \<Rightarrow> rat" where
  "py_round x n = of_int (round_half_even (x * 10 ^ n)) / 10 ^ n"

text \<open>\<open>str(n)\<close> for a non-negative integer: its decimal digits (code point 48 is \<open>0\<close>).\<close>

function str_nat :: "nat \<Rightarrow> ustring" where
  "str_nat n = (if n < 10 then [48 + n] else str_nat (n div 10) @ [48 + n mod 10])"
  by pat_completeness auto
termination
  by (relation "measure (\<lambda>n. n)") auto

declare str_nat.simps [simp del]

section \<open>Run consolidation: \<open>merging.py\<close>, \<open>process_drilling_data\<close>\<close>

text \<open>
  One row of the DataFrame between the creation of the hit-rate column (line 16) and
  the insertion of the synthesized rows (line 296).  The column of each field:
  \<open>seq_no\<close> is the sequence label, \<open>entry_count\<close> the number of entries of the bit,
  \<open>footage\<close> the footage drilled, \<open>drill_time\<close> the net drilling time,
  \<open>mech_speed\<close> the mechanical drilling rate, whose cells may be empty (NaN,
  \<open>None\<close> here), and \<open>hit_rate\<close> the footage hit-rate the function adds.
\<close>

datatype seq_label = SeqNum int | SeqStr ustring

record row =
  seq_no :: seq_label
  entry_count :: int
  start_depth :: rat
  end_depth :: rat
  footage :: rat
  drill_time :: rat
  mud_density :: rat
  mech_speed :: "rat option"
  drill_type :: ustring
  manufacturer :: ustring
  drill_press_a :: rat
  drill_press_b :: rat
  rpm_a :: rat
  rpm_b :: rat
  flow_a :: rat
  flow_b :: rat
  pump_press_a :: rat
  pump_press_b :: rat
  start_formation :: ustring
  end_formation :: ustring
  hit_rate :: rat

text \<open>
  The entries of \<open>rows_to_modify\<close>: the tuples \<open>('depth', k, v)\<close>,
  \<open>('hit_rate', k, v)\<close> and the two-component \<open>(k, v)\<close>.
\<close>

datatype modification = Depth nat rat | HitRate nat rat | Plain nat rat

record scan_state =
  cursor :: nat
  new_rows_to_add :: "(nat \<times> row) list"
  rows_to_modify :: "modification list"
  warnings :: "ustring list list"

text \<open>The forward search (lines 47 to 54): \<open>j\<close> runs upwards from \<open>i + 1\<close>.\<close>

function find_sequence_end :: "row list \<Rightarrow> nat \<Rightarrow> nat \<Rightarrow> nat" where
  "find_sequence_end df j sequence_end =
     (if j < length df then
        (if entry_count (df ! j) = entry_count (df ! (j - 1)) + 1
         then find_sequence_end df (j + 1) j
         else sequence_end)
      else sequence_end)"
  by pat_completeness auto
termination
  by (relation "measure (\<lambda>(df, j, e). length df - j)") auto

declare find_sequence_end.simps [simp del]

text \<open>
  The backward search (lines 57 to 64): the loop variable \<open>k\<close> runs downwards from
  \<open>i - 1\<close> while \<open>k \<ge> 0\<close>; the second argument here is \<open>k + 1\<close>.
\<close>

fun find_sequence_start :: "row list \<Rightarrow> nat \<Rightarrow> nat \<Rightarrow> nat" where
  "find_sequence_start df 0 sequence_start = sequence_start"
| "find_sequence_start df (Suc k) sequence_start =
     (if entry_count (df ! k) = entry_count (df ! (Suc k)) - 1
      then find_sequence_start df k k
      else sequence_start)"

definition consistent_drill_info :: "row list \<Rightarrow> nat \<Rightarrow> nat \<Rightarrow> bool" where
  "consistent_drill_info df s e =
     list_all (\<lambda>k. \<not> (drill_type (df ! k) \<noteq> drill_type (df ! s)
                      \<or> manufacturer (df ! k) \<noteq> manufacturer (df ! s)))
       [s..<Suc e]"

definition depth_continuous :: "row list \<Rightarrow> nat \<Rightarrow> nat \<Rightarrow> bool" where
  "depth_continuous df s e =
     list_all (\<lambda>k. \<not> end_depth (df ! k) \<noteq> start_depth (df ! (k + 1))) [s..<e]"

text \<open>The condition of the data-integrity warning of line 100.\<close>

definition type_mismatch_warning :: "row list \<Rightarrow> nat \<Rightarrow> nat \<Rightarrow> bool" where
  "type_mismatch_warning df s e =
     (\<not> consistent_drill_info df s e \<and> depth_continuous df s e
      \<and> manufacturer (df ! s) = manufacturer (df ! (s + 1)))"

definition drill_types :: "row list \<Rightarrow> nat \<Rightarrow> nat \<Rightarrow> ustring list" where
  "drill_types df s e =
     foldl (\<lambda>acc k. if drill_type (df ! k) \<in> set acc then acc else acc @ [drill_type (df ! k)])
       [] [s..<Suc e]"

definition total_depth :: "row list \<Rightarrow> nat \<Rightarrow> nat \<Rightarrow> rat" where
  "total_depth df s e = sum_list (map (\<lambda>k. footage (df ! k)) [s..<Suc e])"

definition total_drill_time :: "row list \<Rightarrow> nat \<Rightarrow> nat \<Rightarrow> rat" where
  "total_drill_time df s e = sum_list (map (\<lambda>k. drill_time (df ! k)) [s..<Suc e])"

definition total_weight :: "row list \<Rightarrow> nat \<Rightarrow> nat \<Rightarrow> rat" where
  "total_weight df s e = sum_list (map (\<lambda>k. footage (df ! k)) [s..<Suc e])"

text \<open>
  The footage-weighted average of a column that has no empty cells (lines 124 to 135
  for the mud density, 169 to 208 for the paired sensor columns).
\<close>

definition weighted_average :: "(row \<Rightarrow> rat) \<Rightarrow> row list \<Rightarrow> nat \<Rightarrow> nat \<Rightarrow> rat" where
  "weighted_average col df s e =
     (if 0 < total_weight df s e
      then sum_list (map (\<lambda>k. col (df ! k) * footage (df ! k)) [s..<Suc e]) / total_weight df s e
      else col (df ! e))"

definition weighted_density :: "row list \<Rightarrow> nat \<Rightarrow> nat \<Rightarrow> rat" where
  "weighted_density df s e = weighted_average mud_density df s e"

text \<open>The mechanical rate (lines 149 to 167): only the rows with a value take part.\<close>

definition total_weight_for_speed :: "row list \<Rightarrow> nat \<Rightarrow> nat \<Rightarrow> rat" where
  "total_weight_for_speed df s e =
     sum_list (map (\<lambda>k. case mech_speed (df ! k) of None \<Rightarrow> 0 | Some v \<Rightarrow> footage (df ! k))
       [s..<Suc e])"

definition weighted_mechanical_speed :: "row list \<Rightarrow> nat \<Rightarrow> nat \<Rightarrow> rat" where
  "weighted_mechanical_speed df s e =
     (if 0 < total_weight_for_speed df s e
      then sum_list (map (\<lambda>k. case mech_speed (df ! k) of None \<Rightarrow> 0
                               | Some v \<Rightarrow> v * footage (df ! k)) [s..<Suc e])
           / total_weight_for_speed df s e
      else (case mech_speed (df ! e) of None \<Rightarrow> 0 | Some v \<Rightarrow> v))"

text \<open>The synthesized row (lines 210 to 231); \<open>n\<close> is \<open>len(new_rows_to_add)\<close>.\<close>

definition merged_row :: "row list \<Rightarrow> nat \<Rightarrow> nat \<Rightarrow> nat \<Rightarrow> row" where
  "merged_row df s e n =
     (df ! e)\<lparr>
       seq_no := SeqStr (97 # str_nat (n + 1)),
       start_depth := start_depth (df ! s),
       footage := py_round (total_depth df s e) 6,
       drill_time := py_round (total_drill_time df s e) 6,
       mud_density := py_round (weighted_density df s e) 6,
       mech_speed := Some (py_round (weighted_mechanical_speed df s e) 6),
       start_formation := start_formation (df ! s),
       drill_press_a := py_round (weighted_average drill_press_a df s e) 6,
       drill_press_b := py_round (weighted_average drill_press_b df s e) 6,
       rpm_a := py_round (weighted_average rpm_a df s e) 6,
       rpm_b := py_round (weighted_average rpm_b df s e) 6,
       flow_a := py_round (weighted_average flow_a df s e) 6,
       flow_b := py_round (weighted_average flow_b df s e) 6,
       pump_press_a := py_round (weighted_average pump_press_a df s e) 6,
       pump_press_b := py_round (weighted_average pump_press_b df s e) 6,
       hit_rate := py_round 1 6\<rparr>"

text \<open>
  The hit-rate of one row of a merged range (lines 238 to 246): the row's share of the
  merged total, rounded to 6 decimals.  The share is the exact quotient here; where it is
  a decimal tie (footages 1.9 and 318.1 give 0.9940625) the float quotient of the code
  may round to the other neighbour (0.994063 for 0.994062).
\<close>

definition rounded_hit_rate :: "row list \<Rightarrow> nat \<Rightarrow> nat \<Rightarrow> nat \<Rightarrow> rat" where
  "rounded_hit_rate df s e k =
     py_round (if total_depth df s e \<noteq> 0 then footage (df ! k) / total_depth df s e else 1) 6"

definition range_modifications :: "row list \<Rightarrow> nat \<Rightarrow> nat \<Rightarrow> modification list" where
  "range_modifications df s e =
     concat (map (\<lambda>k. [Depth k (py_round (total_depth df s e) 6),
                        HitRate k (rounded_hit_rate df s e k)]) [s..<Suc e])"

text \<open>The block of lines 113 to 247, run when both checks hold.\<close>

definition merge_range :: "row list \<Rightarrow> nat \<Rightarrow> nat \<Rightarrow> scan_state \<Rightarrow> scan_state" where
  "merge_range df s e st =
     st\<lparr>new_rows_to_add :=
          new_rows_to_add st @ [(e, merged_row df s e (length (new_rows_to_add st)))],
        rows_to_modify := rows_to_modify st @ range_modifications df s e\<rparr>"

text \<open>One pass through the body of the \<open>while\<close> loop of line 28, at a cursor inside the table.\<close>

definition scan_step :: "row list \<Rightarrow> scan_state \<Rightarrow> scan_state" where
  "scan_step df st =
     (let i = cursor st in
      if entry_count (df ! i) = 1 \<and> i + 1 < length df \<and> entry_count (df ! (i + 1)) = 1 then
        st\<lparr>rows_to_modify :=
             rows_to_modify st @ [Plain i (py_round 1 6)]
               @ (if entry_count (df ! (i + 1)) = 1 then [Plain (i + 1) (py_round 1 6)] else []),
           cursor := i + 2\<rparr>
      else if 1 \<le> entry_count (df ! i) then
        (let sequence_end = find_sequence_end df (i + 1) i;
             sequence_start = find_sequence_start df i i
         in if sequence_start < sequence_end then
              (let st1 = (if type_mismatch_warning df sequence_start sequence_end
                          then st\<lparr>warnings :=
                                 warnings st @ [drill_types df sequence_start sequence_end]\<rparr>
                          else st);
                   st2 = (if consistent_drill_info df sequence_start sequence_end
                             \<and> depth_continuous df sequence_start sequence_end
                          then merge_range df sequence_start sequence_end st1
                          else st1)
               in st2\<lparr>cursor := sequence_end + 1\<rparr>)
            else st\<lparr>cursor := i + 1\<rparr>)
      else st\<lparr>cursor := i + 1\<rparr>)"

lemma find_sequence_end_ge: "e \<le> find_sequence_end df j e \<or> j \<le> find_sequence_end df j e"
proof (induction df j e rule: find_sequence_end.induct)
  case (1 df j sequence_end)
  show ?case
  proof (cases "j < length df \<and> entry_count (df ! j) = entry_count (df ! (j - 1)) + 1")
    case True
    with "1.IH" have "j \<le> find_sequence_end df (j + 1) j" by auto
    with True show ?thesis by (subst (1 2) find_sequence_end.simps) simp
  next
    case False
    then show ?thesis by (subst (1 2) find_sequence_end.simps) auto
  qed
qed

lemma find_sequence_end_from_cursor: "i \<le> find_sequence_end df (i + 1) i"
  using find_sequence_end_ge [of i df "i + 1"] by auto

lemma scan_step_advances: "cursor st < cursor (scan_step df st)"
  using find_sequence_end_from_cursor [of "cursor st" df]
  by (simp add: scan_step_def Let_def merge_range_def)

function scan :: "row list \<Rightarrow> scan_state \<Rightarrow> scan_state" where
  "scan df st = (if cursor st < length df then scan df (scan_step df st) else st)"
  by pat_completeness auto
termination
proof (relation "measure (\<lambda>(df, st). length df - cursor st)")
  show "wf (measure (\<lambda>(df, st). length df - cursor st))" by simp
next
  fix df :: "row list" and st :: scan_state
  assume "cursor st < length df"
  with scan_step_advances [of st df]
  show "((df, scan_step df st), (df, st)) \<in> measure (\<lambda>(df, st). length df - cursor st)"
    by simp
qed

declare scan.simps [simp del]

definition initial_state :: scan_state where
  "initial_state = \<lparr>cursor = 0, new_rows_to_add = [], rows_to_modify = [], warnings = []\<rparr>"

text \<open>The first pass of the write-back (lines 267 to 281).\<close>

fun apply_modification :: "row list \<Rightarrow> modification \<Rightarrow> row list" where
  "apply_modification df (Depth idx new_value) =
     df[idx := (df ! idx)\<lparr>footage := py_round new_value 6\<rparr>]"
| "apply_modification df (HitRate idx new_value) =
     df[idx := (df ! idx)\<lparr>hit_rate := py_round new_value 6\<rparr>]"
| "apply_modification df (Plain idx new_value) =
     df[idx := (df ! idx)\<lparr>hit_rate := py_round new_value 6\<rparr>]"

definition apply_modifications :: "row list \<Rightarrow> modification list \<Rightarrow> row list" where
  "apply_modifications df mods = foldl apply_modification df mods"

text \<open>
  The second pass (lines 286 to 296): a stable sort by anchor, largest first, then one
  \<open>concat\<close> of the two slices around the insertion point per synthesized row.
\<close>

definition sorted_new_rows :: "(nat \<times> row) list \<Rightarrow> (nat \<times> row) list" where
  "sorted_new_rows new_rows = sort_key (\<lambda>x. - int (fst x)) new_rows"

fun insert_new_row :: "row list \<Rightarrow> nat \<times> row \<Rightarrow> row list" where
  "insert_new_row df (orig_end_pos, new_row) =
     (let actual_insert_pos = orig_end_pos + 1
      in take actual_insert_pos df @ [new_row] @ drop actual_insert_pos df)"

definition insert_new_rows :: "row list \<Rightarrow> (nat \<times> row) list \<Rightarrow> row list" where
  "insert_new_rows df new_rows = foldl insert_new_row df (sorted_new_rows new_rows)"

definition with_hit_rate_column :: "row list \<Rightarrow> row list" where
  "with_hit_rate_column df = map (\<lambda>r. r\<lparr>hit_rate := 1\<rparr>) df"

definition scan_result :: "row list \<Rightarrow> scan_state" where
  "scan_result df = scan (with_hit_rate_column df) initial_state"

definition process_drilling_data :: "row list \<Rightarrow> row list" where
  "process_drilling_data df =
     (let st = scan_result df
      in insert_new_rows (apply_modifications (with_hit_rate_column df) (rows_to_modify st))
           (new_rows_to_add st))"

text \<open>The table after the first pass of the write-back, before any row is inserted.\<close>

definition rewritten_rows :: "row list \<Rightarrow> row list" where
  "rewritten_rows df =
     apply_modifications (with_hit_rate_column df) (rows_to_modify (scan_result df))"

text \<open>
  The number of synthesized rows whose anchor lies before row \<open>k\<close>: so many rows are
  inserted ahead of input row \<open>k\<close>, which is then row
  \<open>k + inserted_before new_rows k\<close> of the output.
\<close>

definition inserted_before :: "(nat \<times> row) list \<Rightarrow> nat \<Rightarrow> nat" where
  "inserted_before new_rows k = length (filter (\<lambda>x. fst x < k) new_rows)"

text \<open>A row without the two columns that the write-back overwrites.\<close>

definition without_rewritten_fields :: "row \<Rightarrow> row" where
  "without_rewritten_fields r = r\<lparr>footage := 0, hit_rate := 0\<rparr>"

subsection \<open>Invariant of the scan\<close>

text \<open>
  The chain of entry counts breaks before row \<open>b\<close>: the backward search of line 59 does
  not step from \<open>b\<close> to \<open>b - 1\<close>.
\<close>

definition chain_break :: "row list \<Rightarrow> nat \<Rightarrow> bool" where
  "chain_break df b =
     (b = 0 \<or> length df \<le> b \<or> entry_count (df ! (b - 1)) \<noteq> entry_count (df ! b) - 1)"

fun modification_index :: "modification \<Rightarrow> nat" where
  "modification_index (Depth idx v) = idx"
| "modification_index (HitRate idx v) = idx"
| "modification_index (Plain idx v) = idx"

text \<open>The row after the last anchor recorded so far.\<close>

definition anchor_barrier :: "scan_state \<Rightarrow> nat" where
  "anchor_barrier st =
     (if new_rows_to_add st = [] then 0 else fst (last (new_rows_to_add st)) + 1)"

text \<open>
  What the scan maintains: the anchors recorded so far increase strictly and lie before
  the cursor, inside the table; the chain of entry counts breaks after the last anchor;
  every modification addresses a row of the table.
\<close>

definition anchors_ok :: "row list \<Rightarrow> scan_state \<Rightarrow> bool" where
  "anchors_ok df st \<longleftrightarrow>
     sorted_wrt (<) (map fst (new_rows_to_add st))
     \<and> (\<forall>a\<in>set (map fst (new_rows_to_add st)). a < anchor_barrier st)
     \<and> anchor_barrier st \<le> cursor st \<and> anchor_barrier st \<le> length df
     \<and> chain_break df (anchor_barrier st)
     \<and> (\<forall>m\<in>set (rows_to_modify st). modification_index m < length df)"

text \<open>
  The \<open>j\<close>-th recorded merge \<open>(e, row)\<close>, seen in the table \<open>cur\<close> to which the
  modifications recorded so far have been applied: the range runs from
  \<open>find_sequence_start df e e\<close> to \<open>e\<close>, the synthesized row is the one of that range,
  and every row of the range carries the merged footage and its own hit-rate.
\<close>

definition merge_recorded :: "row list \<Rightarrow> row list \<Rightarrow> nat \<Rightarrow> nat \<times> row \<Rightarrow> bool" where
  "merge_recorded df cur j em \<longleftrightarrow>
     (let e = fst em; s = find_sequence_start df e e
      in s < e \<and> snd em = merged_row df s e j
         \<and> (\<forall>k. s \<le> k \<and> k \<le> e \<longrightarrow>
               footage (cur ! k) = py_round (total_depth df s e) 6
               \<and> hit_rate (cur ! k) = rounded_hit_rate df s e k))"

definition merges_recorded :: "row list \<Rightarrow> scan_state \<Rightarrow> bool" where
  "merges_recorded df st \<longleftrightarrow>
     (\<forall>j<length (new_rows_to_add st).
        merge_recorded df (apply_modifications df (rows_to_modify st)) j (new_rows_to_add st ! j))"

section \<open>Depth mapping and adjustment: \<open>StratigraphicClassifier\<close>\<close>

text \<open>
  A cell of a CSV row or a value of the JSON dictionary, seen through \<open>float(...)\<close>:
  \<open>Numeric r\<close> is a text (or number) that \<open>float\<close> turns into \<open>r\<close>,
  \<open>NonNumeric s\<close> a text \<open>s\<close> on which \<open>float\<close> raises \<open>ValueError\<close>,
  \<open>Null_value\<close> the value \<open>None\<close> (a JSON \<open>null\<close>, or the cell of a CSV row that is
  shorter than the header), on which \<open>float\<close> raises \<open>TypeError\<close>; it also stands
  for a JSON list or object, on which \<open>float\<close> raises the same exception.
  A column or key that is absent is \<open>None\<close>, and reading it raises \<open>KeyError\<close>.
\<close>

datatype csv_cell = Numeric rat | NonNumeric ustring | Null_value

datatype py_exception = KeyError | ValueError | TypeError

definition getitem :: "'a option \<Rightarrow> py_exception + 'a" where
  "getitem v = (case v of None \<Rightarrow> Inl KeyError | Some x \<Rightarrow> Inr x)"

definition float_of :: "csv_cell \<Rightarrow> py_exception + rat" where
  "float_of c =
     (case c of Numeric r \<Rightarrow> Inr r | NonNumeric s \<Rightarrow> Inl ValueError
      | Null_value \<Rightarrow> Inl TypeError)"

definition and_then :: "py_exception + 'a \<Rightarrow> ('a \<Rightarrow> py_exception + 'b) \<Rightarrow> py_exception + 'b" where
  "and_then m f = (case m of Inl e \<Rightarrow> Inl e | Inr x \<Rightarrow> f x)"

text \<open>
  \<open>s.replace(old, '')\<close> for a non-empty \<open>old\<close> (the sources only pass the literals
  below), and the substring test \<open>sub in s\<close>.
\<close>

function remove_all :: "ustring \<Rightarrow> ustring \<Rightarrow> ustring" where
  "remove_all old s =
     (if s = [] then []
      else if old \<noteq> [] \<and> take (length old) s = old
      then remove_all old (drop (length old) s)
      else hd s # remove_all old (tl s))"
  by pat_completeness auto
termination
  by (relation "measure (\<lambda>(old, s). length s)") auto

declare remove_all.simps [simp del]

fun contains :: "ustring \<Rightarrow> ustring \<Rightarrow> bool" where
  "contains [] sub = (sub = [])"
| "contains (c # cs) sub = (take (length sub) (c # cs) = sub \<or> contains cs sub)"

definition duan :: ustring where "duan = [27573]"
definition yaduan :: ustring where "yaduan = [20122, 27573]"
definition weizhi :: ustring where "weizhi = [26410, 30693]"

text \<open>The chain \<open>.replace('yaduan', '').replace('1', '').replace('2', '').replace('3', '')\<close>.\<close>

definition strip_subsegment :: "ustring \<Rightarrow> ustring" where
  "strip_subsegment s = remove_all [51] (remove_all [50] (remove_all [49] (remove_all yaduan s)))"

text \<open>
  An entry of the formation dictionary (its three keys: parent category, normalized top
  and bottom position), the dictionary as the ordered list of its items, and the
  formation depth table, a dictionary from a name to top and bottom depth, in
  insertion order.
\<close>

record dict_entry =
  parent :: "ustring option"
  top_position :: "csv_cell option"
  bottom_position :: "csv_cell option"

type_synonym stratigraphic_dict = "(ustring \<times> dict_entry) list"
type_synonym formation_depths = "(ustring \<times> rat \<times> rat) list"

datatype range_judgment = In_range | Too_small | Too_large | Cannot_judge

definition predict_formation_by_depth :: "formation_depths \<Rightarrow> rat \<Rightarrow> ustring" where
  "predict_formation_by_depth fd depth =
     (if fd = [] then weizhi
      else case find (\<lambda>(name, top_depth, bottom_depth). top_depth \<le> depth \<and> depth < bottom_depth) fd of
        Some (name, _) \<Rightarrow> name
      | None \<Rightarrow>
          (let max_depth = foldl max (snd (snd (hd fd))) (map (\<lambda>(name, t, b). b) (tl fd))
           in if depth = max_depth
              then (case find (\<lambda>(name, top_depth, bottom_depth). bottom_depth = max_depth) fd of
                      Some (name, _) \<Rightarrow> name | None \<Rightarrow> weizhi)
              else weizhi))"

definition similar_formations :: "formation_depths \<Rightarrow> ustring \<Rightarrow> ustring list" where
  "similar_formations fd formation_name =
     filter (\<lambda>key. contains key (remove_all duan formation_name)
                  \<or> strip_subsegment key = remove_all duan formation_name) (map fst fd)"

definition scale_position :: "csv_cell \<Rightarrow> rat \<times> rat \<Rightarrow> py_exception + rat option" where
  "scale_position position_value depth_info =
     and_then (float_of position_value)
       (\<lambda>p. Inr (Some (py_round (p * (snd depth_info - fst depth_info) + fst depth_info) 2)))"

definition calculate_mapped_depth ::
    "formation_depths \<Rightarrow> csv_cell \<Rightarrow> ustring \<Rightarrow> py_exception + rat option" where
  "calculate_mapped_depth fd position_value formation_name =
     (if fd = [] then Inr None
      else case map_of fd formation_name of
        Some depth_info \<Rightarrow> scale_position position_value depth_info
      | None \<Rightarrow>
          (case similar_formations fd formation_name of
             closest_formation # _ \<Rightarrow>
               (case map_of fd closest_formation of
                  Some depth_info \<Rightarrow> scale_position position_value depth_info
                | None \<Rightarrow> Inl KeyError)
           | [] \<Rightarrow> Inr None))"

definition compare_predicted_and_actual :: "ustring \<Rightarrow> ustring \<Rightarrow> bool" where
  "compare_predicted_and_actual predicted actual =
     (if predicted = actual then True
      else if strip_subsegment predicted = remove_all duan actual then True
      else if strip_subsegment actual = remove_all duan predicted then True
      else False)"

definition check_depth_range :: "rat \<Rightarrow> rat option \<Rightarrow> rat option \<Rightarrow> range_judgment" where
  "check_depth_range actual_depth mapped_depth_start mapped_depth_end =
     (case (mapped_depth_start, mapped_depth_end) of
        (Some a, Some b) \<Rightarrow>
          (let min_mapped_depth = min a b; max_mapped_depth = max a b
           in if min_mapped_depth \<le> actual_depth \<and> actual_depth \<le> max_mapped_depth then In_range
              else if actual_depth < min_mapped_depth then Too_small
              else Too_large)
      | _ \<Rightarrow> Cannot_judge)"

definition adjust_depth_based_on_judgment ::
    "range_judgment \<Rightarrow> rat \<Rightarrow> rat option \<Rightarrow> rat option \<Rightarrow> rat" where
  "adjust_depth_based_on_judgment j actual_depth top_mapped_depth bottom_mapped_depth =
     (case j of
        In_range \<Rightarrow> actual_depth
      | Too_large \<Rightarrow>
          (case (top_mapped_depth, bottom_mapped_depth) of
             (Some t, Some b) \<Rightarrow> max t b | _ \<Rightarrow> actual_depth)
      | Too_small \<Rightarrow>
          (case (top_mapped_depth, bottom_mapped_depth) of
             (Some t, Some b) \<Rightarrow> min t b | _ \<Rightarrow> actual_depth)
      | Cannot_judge \<Rightarrow> actual_depth)"

text \<open>
  Lines 211 to 234 of \<open>process_drilling_data\<close>: the two range judgments, the
  adjustment of each boundary and the two special rules, from the two actual depths
  and the four mapped depths of a row.
\<close>

definition adjusted_depths ::
    "rat \<Rightarrow> rat \<Rightarrow> rat option \<Rightarrow> rat option \<Rightarrow> rat option \<Rightarrow> rat option \<Rightarrow> rat \<times> rat" where
  "adjusted_depths actual_start actual_end start_top start_bottom end_top end_bottom =
     (let start_depth_in_range = check_depth_range actual_start start_top start_bottom;
          end_depth_in_range = check_depth_range actual_end end_top end_bottom;
          adjusted_start_depth =
            adjust_depth_based_on_judgment start_depth_in_range actual_start start_top start_bottom;
          adjusted_end_depth =
            adjust_depth_based_on_judgment end_depth_in_range actual_end end_top end_bottom;
          adjusted_start_depth =
            (if start_depth_in_range = Too_large \<and> end_depth_in_range = Too_large
             then (case (start_top, start_bottom) of
                     (Some t, Some b) \<Rightarrow> py_round ((t + b) / 2) 2
                   | _ \<Rightarrow> adjusted_start_depth)
             else adjusted_start_depth);
          adjusted_end_depth =
            (if start_depth_in_range = Too_small \<and> end_depth_in_range = Too_small
             then (case (end_top, end_bottom) of
                     (Some t, Some b) \<Rightarrow> py_round ((t + b) / 2) 2
                   | _ \<Rightarrow> adjusted_end_depth)
             else adjusted_end_depth)
      in (adjusted_start_depth, adjusted_end_depth))"

text \<open>
  A row of the input CSV as \<open>csv.DictReader\<close> yields it (the five columns the
  function reads), and the row it appends to \<open>processed_rows\<close>.
\<close>

record drilling_csv_row =
  in_seq_no :: "ustring option"
  in_start_depth :: "csv_cell option"
  in_end_depth :: "csv_cell option"
  in_start_formation :: "ustring option"
  in_end_formation :: "ustring option"

record mapped_row =
  out_seq_no :: ustring
  out_start_depth :: csv_cell
  out_end_depth :: csv_cell
  out_start_formation :: ustring
  out_start_parent :: ustring
  out_start_top_position :: csv_cell
  out_start_top_mapped :: "rat option"
  out_start_bottom_position :: csv_cell
  out_start_bottom_mapped :: "rat option"
  out_end_formation :: ustring
  out_end_parent :: ustring
  out_end_top_position :: csv_cell
  out_end_top_mapped :: "rat option"
  out_end_bottom_position :: csv_cell
  out_end_bottom_mapped :: "rat option"
  out_predicted_start :: ustring
  out_start_consistency :: bool
  out_start_in_range :: range_judgment
  out_predicted_end :: ustring
  out_end_consistency :: bool
  out_end_in_range :: range_judgment
  out_adjusted_start :: rat
  out_adjusted_end :: rat

text \<open>The default of \<open>stratigraphic_dict.get\<close> for a formation the dictionary lacks.\<close>

definition default_info :: dict_entry where
  "default_info =
     \<lparr>parent = Some weizhi, top_position = Some (Numeric 0), bottom_position = Some (Numeric 1)\<rparr>"

definition get_info :: "stratigraphic_dict \<Rightarrow> ustring \<Rightarrow> dict_entry" where
  "get_info d formation = (case map_of d formation of Some info \<Rightarrow> info | None \<Rightarrow> default_info)"

text \<open>The body of the \<open>for\<close> loop (lines 160 to 267), in the order the code evaluates it.\<close>

definition process_row ::
    "stratigraphic_dict \<Rightarrow> formation_depths \<Rightarrow> drilling_csv_row \<Rightarrow> py_exception + mapped_row" where
  "process_row d fd r =
     and_then (getitem (in_start_formation r)) (\<lambda>s_formation.
     and_then (getitem (in_end_formation r)) (\<lambda>e_formation.
     and_then (getitem (in_start_depth r)) (\<lambda>s_cell.
     and_then (float_of s_cell) (\<lambda>s_depth.
     and_then (getitem (in_end_depth r)) (\<lambda>e_cell.
     and_then (float_of e_cell) (\<lambda>e_depth.
       (let predicted_start_formation = predict_formation_by_depth fd s_depth;
            predicted_end_formation = predict_formation_by_depth fd e_depth;
            start_info = get_info d s_formation;
            end_info = get_info d e_formation
        in
     and_then (getitem (parent start_info)) (\<lambda>start_formation_for_depth.
     and_then (getitem (parent end_info)) (\<lambda>end_formation_for_depth.
     and_then (getitem (top_position start_info)) (\<lambda>s_top_pos.
     and_then (calculate_mapped_depth fd s_top_pos start_formation_for_depth) (\<lambda>start_top_mapped_depth.
     and_then (getitem (bottom_position start_info)) (\<lambda>s_bottom_pos.
     and_then (calculate_mapped_depth fd s_bottom_pos start_formation_for_depth) (\<lambda>start_bottom_mapped_depth.
     and_then (getitem (top_position end_info)) (\<lambda>e_top_pos.
     and_then (calculate_mapped_depth fd e_top_pos end_formation_for_depth) (\<lambda>end_top_mapped_depth.
     and_then (getitem (bottom_position end_info)) (\<lambda>e_bottom_pos.
     and_then (calculate_mapped_depth fd e_bottom_pos end_formation_for_depth) (\<lambda>end_bottom_mapped_depth.
       (let start_consistency =
              compare_predicted_and_actual predicted_start_formation start_formation_for_depth;
            end_consistency =
              compare_predicted_and_actual predicted_end_formation end_formation_for_depth;
            start_depth_in_range =
              check_depth_range s_depth start_top_mapped_depth start_bottom_mapped_depth;
            end_depth_in_range =
              check_depth_range e_depth end_top_mapped_depth end_bottom_mapped_depth;
            adjusted = adjusted_depths s_depth e_depth start_top_mapped_depth
                         start_bottom_mapped_depth end_top_mapped_depth end_bottom_mapped_depth
        in
     and_then (getitem (in_seq_no r)) (\<lambda>seq.
       Inr \<lparr>out_seq_no = seq,
            out_start_depth = s_cell,
            out_end_depth = e_cell,
            out_start_formation = s_formation,
            out_start_parent = start_formation_for_depth,
            out_start_top_position = s_top_pos,
            out_start_top_mapped = start_top_mapped_depth,
            out_start_bottom_position = s_bottom_pos,
            out_start_bottom_mapped = start_bottom_mapped_depth,
            out_end_formation = e_formation,
            out_end_parent = end_formation_for_depth,
            out_end_top_position = e_top_pos,
            out_end_top_mapped = end_top_mapped_depth,
            out_end_bottom_position = e_bottom_pos,
            out_end_bottom_mapped = end_bottom_mapped_depth,
            out_predicted_start = predicted_start_formation,
            out_start_consistency = start_consistency,
            out_start_in_range = start_depth_in_range,
            out_predicted_end = predicted_end_formation,
            out_end_consistency = end_consistency,
            out_end_in_range = end_depth_in_range,
            out_adjusted_start = fst adjusted,
            out_adjusted_end = snd adjusted\<rparr>)))))))))))))))))))"

text \<open>
  The loop inside the \<open>try\<close> of line 155: the first exception of a row leaves the loop.
\<close>

fun process_rows ::
    "stratigraphic_dict \<Rightarrow> formation_depths \<Rightarrow> drilling_csv_row list
      \<Rightarrow> py_exception + mapped_row list" where
  "process_rows d fd [] = Inr []"
| "process_rows d fd (r # rs) =
     and_then (process_row d fd r) (\<lambda>new_row.
     and_then (process_rows d fd rs) (\<lambda>processed_rows. Inr (new_row # processed_rows)))"

text \<open>
  \<open>StratigraphicClassifier.process_drilling_data\<close> once both tables are loaded: the
  \<open>except\<close> of line 269 turns any exception into the return value \<open>False\<close> before
  anything is written (\<open>None\<close>); otherwise the rows are written out (\<open>Some\<close>).
\<close>

definition classifier_process_drilling_data ::
    "stratigraphic_dict \<Rightarrow> formation_depths \<Rightarrow> drilling_csv_row list \<Rightarrow> mapped_row list option" where
  "classifier_process_drilling_data d fd rows =
     (case process_rows d fd rows of Inl e \<Rightarrow> None | Inr processed_rows \<Rightarrow> Some processed_rows)"

text \<open>
  A row on which no statement of the loop body raises: the five columns are present and
  both depths are texts that \<open>float\<close> accepts.  A dictionary entry with its three keys
  and numeric positions (its parent category is a text, as in every \<open>dict_entry\<close>).
\<close>

definition is_numeric :: "csv_cell option \<Rightarrow> bool" where
  "is_numeric c = (case c of Some (Numeric v) \<Rightarrow> True | _ \<Rightarrow> False)"

definition well_formed_row :: "drilling_csv_row \<Rightarrow> bool" where
  "well_formed_row r =
     (in_seq_no r \<noteq> None \<and> in_start_formation r \<noteq> None \<and> in_end_formation r \<noteq> None
      \<and> is_numeric (in_start_depth r) \<and> is_numeric (in_end_depth r))"

definition complete_entry :: "dict_entry \<Rightarrow> bool" where
  "complete_entry info =
     (parent info \<noteq> None \<and> is_numeric (top_position info) \<and> is_numeric (bottom_position info))"

text \<open>
  The formation depth table resolves the category \<open>weizhi\<close> (the default of a formation
  that the dictionary lacks) neither by name nor by a similar name.
\<close>

definition unknown_unresolved :: "formation_depths \<Rightarrow> bool" where
  "unknown_unresolved fd = (fd = [] \<or> map_of fd weizhi = None \<and> similar_formations fd weizhi = [])"

section \<open>Confidence scoring: \<open>WellCategoryAnalyzer.calculate_confidence\<close>\<close>

record category_info =
  category :: ustring
  cat_start_depth :: rat
  cat_end_depth :: rat

record well_row =
  well_seq_no :: seq_label
  adjusted_start_depth :: rat
  adjusted_end_depth :: rat

record confidence_row =
  conf_seq_no :: seq_label
  conf_category :: ustring
  confidence :: rat

definition total_length :: "well_row \<Rightarrow> rat" where
  "total_length w = \<bar>adjusted_end_depth w - adjusted_start_depth w\<bar>"

definition well_start :: "well_row \<Rightarrow> rat" where
  "well_start w = min (adjusted_start_depth w) (adjusted_end_depth w)"

definition well_end :: "well_row \<Rightarrow> rat" where
  "well_end w = max (adjusted_start_depth w) (adjusted_end_depth w)"

definition overlap_start :: "well_row \<Rightarrow> category_info \<Rightarrow> rat" where
  "overlap_start w c = max (well_start w) (cat_start_depth c)"

definition overlap_end :: "well_row \<Rightarrow> category_info \<Rightarrow> rat" where
  "overlap_end w c = min (well_end w) (cat_end_depth c)"

text \<open>The body of the inner loop (lines 72 to 99): no row or one row per category.\<close>

definition category_rows :: "well_row \<Rightarrow> category_info \<Rightarrow> confidence_row list" where
  "category_rows w c =
     (if overlap_start w c \<le> overlap_end w c then
        (let overlap_length = \<bar>overlap_end w c - overlap_start w c\<bar>;
             conf = (if total_length w = 0 then 1 else overlap_length / total_length w)
         in [\<lparr>conf_seq_no = well_seq_no w, conf_category = category c,
               confidence = py_round conf 6\<rparr>])
      else [])"

definition calculate_confidence :: "category_info list \<Rightarrow> well_row list \<Rightarrow> confidence_row list" where
  "calculate_confidence categories well_data =
     concat (map (\<lambda>w. concat (map (category_rows w) categories)) well_data)"

section \<open>Dictionary validation: \<open>DictionaryValidator.validate_dictionary\<close>\<close>

text \<open>
  The messages appended to \<open>errors\<close>, one constructor per message text, with the values
  the message is formatted from.  \<open>Missing_in_dict\<close> is the completeness message; it
  carries the list of all missing names.
\<close>

datatype position_field = Top_position | Bottom_position

datatype validation_error =
    Dict_empty
  | Datatest_empty
  | Stratigraphic_empty
  | Missing_in_dict "ustring list"
  | Parent_field_missing ustring
  | Parent_not_in_stratigraphy ustring ustring
  | Position_field_missing ustring position_field
  | Position_out_of_range ustring position_field rat
  | Position_not_a_number ustring position_field ustring

definition position_of :: "position_field \<Rightarrow> dict_entry \<Rightarrow> csv_cell option" where
  "position_of field details =
     (case field of Top_position \<Rightarrow> top_position details
      | Bottom_position \<Rightarrow> bottom_position details)"



text \<open>
  The range check of one position field (lines 109 to 118).  The \<open>except\<close> of line 117
  catches \<open>ValueError\<close> only: on a \<open>null\<close> value \<open>float\<close> raises \<open>TypeError\<close>, which
  leaves \<open>validate_dictionary\<close>.
\<close>

definition field_errors ::
    "ustring \<Rightarrow> dict_entry \<Rightarrow> position_field \<Rightarrow> py_exception + validation_error list" where
  "field_errors formation details field =
     (case position_of field details of
        None \<Rightarrow> Inr [Position_field_missing formation field]
      | Some (Numeric v) \<Rightarrow>
          Inr (if \<not> (0 \<le> v \<and> v \<le> 1) then [Position_out_of_range formation field v] else [])
      | Some (NonNumeric t) \<Rightarrow> Inr [Position_not_a_number formation field t]
      | Some Null_value \<Rightarrow> Inl TypeError)"

text \<open>A loop that appends to \<open>errors\<close> and that the first exception leaves.\<close>

fun collect_errors ::
    "('a \<Rightarrow> py_exception + validation_error list) \<Rightarrow> 'a list
      \<Rightarrow> py_exception + validation_error list" where
  "collect_errors f [] = Inr []"
| "collect_errors f (x # xs) =
     and_then (f x) (\<lambda>errors. and_then (collect_errors f xs) (\<lambda>more. Inr (errors @ more)))"

definition range_errors ::
    "stratigraphic_dict \<Rightarrow> ustring \<Rightarrow> py_exception + validation_error list" where
  "range_errors json_data formation =
     (case map_of json_data formation of
        None \<Rightarrow> Inr []
      | Some details \<Rightarrow>
          collect_errors (field_errors formation details) [Top_position, Bottom_position])"



text \<open>
  No position value of a referenced formation is \<open>null\<close>: the condition under which
  \<open>validate_dictionary\<close> returns.
\<close>

definition no_null_position :: "stratigraphic_dict \<Rightarrow> ustring list \<Rightarrow> bool" where
  "no_null_position json_data datatest_formations =
     list_all (\<lambda>formation.
        case map_of json_data formation of
          None \<Rightarrow> True
        | Some details \<Rightarrow>
            top_position details \<noteq> Some Null_value \<and> bottom_position details \<noteq> Some Null_value)
       datatest_formations"


section \<open>Sample tables\<close>

text \<open>Concrete rows and tables on which the results below are evaluated.\<close>

definition base_row :: row where
  "base_row =
     \<lparr>seq_no = SeqNum 1, entry_count = 1, start_depth = 950, end_depth = 1000, footage = 50,
      drill_time = 10, mud_density = 6 / 5, mech_speed = Some 5, drill_type = [80],
      manufacturer = [77], drill_press_a = 1, drill_press_b = 2, rpm_a = 3, rpm_b = 4,
      flow_a = 5, flow_b = 6, pump_press_a = 7, pump_press_b = 8, start_formation = [65],
      end_formation = [66], hit_rate = 1\<rparr>"

definition second_row :: row where
  "second_row =
     base_row\<lparr>seq_no := SeqNum 2, entry_count := 2, start_depth := 1000, end_depth := 1030,
       footage := 30\<rparr>"

text \<open>Entry counts 1, 2, 1; the first two rows differ in the manufacturer.\<close>

definition mismatch_df :: "row list" where
  "mismatch_df =
     [base_row, second_row\<lparr>manufacturer := [78]\<rparr>, base_row\<lparr>seq_no := SeqNum 3\<rparr>]"

text \<open>
  Six rows with entry counts 1 to 6, contiguous depths and footage 1 each; two rows
  without any mechanical rate; two rows of which the first has no mechanical rate; two
  rows of footage 0.
\<close>

definition six_rows_df :: "row list" where
  "six_rows_df =
     map (\<lambda>k. base_row\<lparr>seq_no := SeqNum (int k + 1), entry_count := int k + 1,
                  start_depth := 950 + of_nat k, end_depth := 951 + of_nat k, footage := 1\<rparr>)
       [0..<6]"

definition null_speed_df :: "row list" where
  "null_speed_df = [base_row\<lparr>mech_speed := None\<rparr>, second_row\<lparr>mech_speed := None\<rparr>]"

definition partial_null_df :: "row list" where
  "partial_null_df = [base_row\<lparr>mech_speed := None, mud_density := 2\<rparr>, second_row]"

definition zero_footage_df :: "row list" where
  "zero_footage_df = [base_row\<lparr>footage := 0\<rparr>, second_row\<lparr>footage := 0, mud_density := 13 / 10\<rparr>]"

text \<open>Entry counts 1, 2, 1, 2: two ranges of two rows each.\<close>

definition two_runs_df :: "row list" where
  "two_runs_df =
     [base_row, second_row, base_row\<lparr>seq_no := SeqNum 3\<rparr>, second_row\<lparr>seq_no := SeqNum 4\<rparr>]"

text \<open>
  A category spanning 1000 to 1100, a run adjusted to 1050 to 1150 (scenario D), and a
  run adjusted to 900 to 1000, which meets the category in the single depth 1000.
\<close>

definition cat_p1 :: category_info where
  "cat_p1 = \<lparr>category = [80, 49], cat_start_depth = 1000, cat_end_depth = 1100\<rparr>"

definition well_d :: well_row where
  "well_d = \<lparr>well_seq_no = SeqNum 1, adjusted_start_depth = 1050, adjusted_end_depth = 1150\<rparr>"

definition well_touching :: well_row where
  "well_touching = \<lparr>well_seq_no = SeqNum 2, adjusted_start_depth = 900, adjusted_end_depth = 1000\<rparr>"

text \<open>
  The formation names \<open>A-duan\<close>, \<open>X-duan\<close>, \<open>Y-duan\<close>, the category \<open>P1\<close>, and a
  dictionary with the single entry of scenario C.
\<close>

definition name_a :: ustring where "name_a = [65, 27573]"
definition name_x :: ustring where "name_x = [88, 27573]"
definition name_p1 :: ustring where "name_p1 = [80, 49]"


definition dict_a :: stratigraphic_dict where
  "dict_a = [(name_a, \<lparr>parent = Some name_p1, top_position = Some (Numeric 0),
                         bottom_position = Some (Numeric (1 / 2))\<rparr>)]"

text \<open>
  A depth table with the one category \<open>P1\<close> from 1000 to 1200; a row in formation
  \<open>A\<close>, the same row with a start depth that is not a number, and with a start
  formation that the dictionary lacks.
\<close>

definition fd_p1 :: formation_depths where
  "fd_p1 = [(name_p1, (1000, 1200))]"

definition good_row :: drilling_csv_row where
  "good_row =
     \<lparr>in_seq_no = Some [49], in_start_depth = Some (Numeric 1010),
      in_end_depth = Some (Numeric 1090), in_start_formation = Some name_a,
      in_end_formation = Some name_a\<rparr>"

definition bad_row :: drilling_csv_row where
  "bad_row = good_row\<lparr>in_seq_no := Some [50], in_start_depth := Some (NonNumeric [97, 98, 99])\<rparr>"

definition unknown_row :: drilling_csv_row where
  "unknown_row = good_row\<lparr>in_seq_no := Some [51], in_start_formation := Some name_x\<rparr>"

section \<open>Rounding\<close>

lemma py_round_of_int: "py_round (of_int z) n = of_int z"
proof -
  have "(of_int z :: rat) * 10 ^ n = of_int (z * 10 ^ n)" by simp
  then have "round_half_even (of_int z * 10 ^ n) = z * 10 ^ n"
    unfolding round_half_even_def Let_def by (simp del: of_int_mult of_int_power)
  then show ?thesis by (simp add: py_round_def)
qed

lemma py_round_numerals: "py_round 80 6 = 80" "py_round 1 6 = 1" "py_round 0 6 = 0"
  using py_round_of_int [of 80 6] py_round_of_int [of 1 6] py_round_of_int [of 0 6]
  by simp_all

lemma py_round_eighths: "py_round (5 / 8) 6 = 5 / 8" "py_round (3 / 8) 6 = 3 / 8"
  by (simp_all add: py_round_def round_half_even_def Let_def)

lemma round_half_even_cases:
  "round_half_even x = \<lfloor>x\<rfloor> \<and> x - of_int \<lfloor>x\<rfloor> \<le> 1 / 2
   \<or> round_half_even x = \<lfloor>x\<rfloor> + 1 \<and> 1 / 2 \<le> x - of_int \<lfloor>x\<rfloor>"
  unfolding round_half_even_def Let_def by auto

lemma round_half_even_lower: "of_int (round_half_even x) - 1 / 2 \<le> x"
proof -
  define f where "f = \<lfloor>x\<rfloor>"
  have fl: "of_int f \<le> x" unfolding f_def by simp
  from round_half_even_cases [of x]
  have "round_half_even x = f \<or> round_half_even x = f + 1 \<and> 1 / 2 \<le> x - of_int f"
    unfolding f_def by blast
  then show ?thesis
  proof
    assume "round_half_even x = f"
    with fl show ?thesis by simp
  next
    assume "round_half_even x = f + 1 \<and> 1 / 2 \<le> x - of_int f"
    then show ?thesis by simp
  qed
qed

lemma round_half_even_upper: "x \<le> of_int (round_half_even x) + 1 / 2"
proof -
  define f where "f = \<lfloor>x\<rfloor>"
  have fl: "x < of_int f + 1" unfolding f_def by linarith
  from round_half_even_cases [of x]
  have "round_half_even x = f \<and> x - of_int f \<le> 1 / 2 \<or> round_half_even x = f + 1"
    unfolding f_def by blast
  then show ?thesis
  proof
    assume "round_half_even x = f \<and> x - of_int f \<le> 1 / 2"
    then show ?thesis by simp
  next
    assume "round_half_even x = f + 1"
    with fl show ?thesis by simp
  qed
qed

lemma round_half_even_ge_floor: "\<lfloor>x\<rfloor> \<le> round_half_even x"
  unfolding round_half_even_def Let_def by auto

lemma round_half_even_le_ceil: "round_half_even x \<le> \<lfloor>x\<rfloor> + 1"
  unfolding round_half_even_def Let_def by auto

lemma round_half_even_mono:
  assumes "x \<le> y"
  shows "round_half_even x \<le> round_half_even y"
proof (cases "\<lfloor>x\<rfloor> = \<lfloor>y\<rfloor>")
  case True
  with assms show ?thesis
    unfolding round_half_even_def Let_def by auto
next
  case False
  with assms have "\<lfloor>x\<rfloor> + 1 \<le> \<lfloor>y\<rfloor>"
    using floor_mono [of x y] by linarith
  with round_half_even_le_ceil [of x] round_half_even_ge_floor [of y]
  show ?thesis by linarith
qed

lemma py_round_mono: "x \<le> y \<Longrightarrow> py_round x n \<le> py_round y n"
  unfolding py_round_def
  by (intro divide_right_mono) (simp_all add: round_half_even_mono mult_right_mono)

lemma py_round_error: "\<bar>py_round x n - x\<bar> \<le> 1 / (2 * 10 ^ n)"
proof -
  have p: "(0::rat) < 10 ^ n" by simp
  define r where "r = (of_int (round_half_even (x * 10 ^ n)) :: rat)"
  have "r - 1 / 2 \<le> x * 10 ^ n" "x * 10 ^ n \<le> r + 1 / 2"
    unfolding r_def by (rule round_half_even_lower, rule round_half_even_upper)
  then have "\<bar>r - x * 10 ^ n\<bar> \<le> 1 / 2" by linarith
  then have "\<bar>r - x * 10 ^ n\<bar> / 10 ^ n \<le> (1 / 2) / 10 ^ n"
    by (rule divide_right_mono) simp
  moreover have "\<bar>r - x * 10 ^ n\<bar> / 10 ^ n = \<bar>r / 10 ^ n - x\<bar>"
  proof -
    have "r / 10 ^ n - x = (r - x * 10 ^ n) / 10 ^ n"
      using p by (simp add: field_simps)
    then show ?thesis using p by (simp add: abs_divide)
  qed
  ultimately show ?thesis by (simp add: py_round_def r_def)
qed

section \<open>Run consolidation: results\<close>

text \<open>
  Claim C1 (scenario A).  Two consecutive rows with entry counts 1 and 2, the same bit
  type and manufacturer, the first ending at depth 1000 where the second starts, and
  footages 50 and 30: the output is the two rows, each with its footage overwritten by
  the merged total 80 and its hit-rate set to 0.625 and 0.375, followed by the
  synthesized row, whose footage is 80 and whose hit-rate is 1.
\<close>

theorem scenario_A_merge:
  assumes "entry_count r1 = 1" and "entry_count r2 = 2"
    and "drill_type r1 = drill_type r2" and "manufacturer r1 = manufacturer r2"
    and "end_depth r1 = 1000" and "start_depth r2 = 1000"
    and "footage r1 = 50" and "footage r2 = 30"
  shows "process_drilling_data [r1, r2] =
           [r1\<lparr>footage := 80, hit_rate := 5 / 8\<rparr>, r2\<lparr>footage := 80, hit_rate := 3 / 8\<rparr>,
            merged_row (with_hit_rate_column [r1, r2]) 0 1 0]
         \<and> footage (merged_row (with_hit_rate_column [r1, r2]) 0 1 0) = 80
         \<and> hit_rate (merged_row (with_hit_rate_column [r1, r2]) 0 1 0) = 1"
proof -
  define df where "df = with_hit_rate_column [r1, r2]"
  have df: "df = [r1\<lparr>hit_rate := 1\<rparr>, r2\<lparr>hit_rate := 1\<rparr>]"
    by (simp add: df_def with_hit_rate_column_def)
  have fe: "find_sequence_end df (Suc 0) 0 = Suc 0"
    using assms by (simp add: df find_sequence_end.simps)
  have cons: "consistent_drill_info df 0 (Suc 0)" "depth_continuous df 0 (Suc 0)"
    using assms by (simp_all add: df consistent_drill_info_def depth_continuous_def)
  have td: "total_depth df 0 (Suc 0) = 80"
    using assms by (simp add: df total_depth_def)
  have ft: "footage (df ! 0) = 50" "footage (df ! Suc 0) = 30"
    using assms by (simp_all add: df)
  have ec: "entry_count (df ! 0) = 1" "entry_count (df ! Suc 0) = 2" "length df = 2"
    using assms by (simp_all add: df)
  have step: "scan_step df initial_state =
      \<lparr>cursor = 2, new_rows_to_add = [(Suc 0, merged_row df 0 (Suc 0) 0)],
       rows_to_modify = range_modifications df 0 (Suc 0), warnings = []\<rparr>"
    using cons fe
    by (simp add: scan_step_def initial_state_def Let_def type_mismatch_warning_def
        merge_range_def ec)
  have sc: "scan df initial_state = scan_step df initial_state"
    by (subst scan.simps, subst scan.simps) (simp add: step ec, simp add: initial_state_def ec)
  have mods: "range_modifications df 0 (Suc 0) =
      [Depth 0 80, HitRate 0 (5 / 8), Depth (Suc 0) 80, HitRate (Suc 0) (3 / 8)]"
    by (simp add: range_modifications_def rounded_hit_rate_def td ft py_round_numerals
        py_round_eighths)
  have app: "apply_modifications df (range_modifications df 0 (Suc 0)) =
      [r1\<lparr>footage := 80, hit_rate := 5 / 8\<rparr>, r2\<lparr>footage := 80, hit_rate := 3 / 8\<rparr>]"
    unfolding mods by (simp add: apply_modifications_def df py_round_numerals py_round_eighths)
  have "process_drilling_data [r1, r2] =
           [r1\<lparr>footage := 80, hit_rate := 5 / 8\<rparr>, r2\<lparr>footage := 80, hit_rate := 3 / 8\<rparr>,
            merged_row df 0 (Suc 0) 0]"
    unfolding process_drilling_data_def scan_result_def Let_def df_def [symmetric] sc step
    by (simp add: app insert_new_rows_def sorted_new_rows_def)
  moreover have "footage (merged_row df 0 (Suc 0) 0) = 80"
    "hit_rate (merged_row df 0 (Suc 0) 0) = 1"
    by (simp_all add: merged_row_def td py_round_numerals)
  ultimately show ?thesis by (simp add: df_def)
qed

theorem scenario_A_merge_witness:
  "entry_count base_row = 1 \<and> entry_count second_row = 2
   \<and> end_depth base_row = 1000 \<and> start_depth second_row = 1000
   \<and> footage base_row = 50 \<and> footage second_row = 30
   \<and> map hit_rate (process_drilling_data [base_row, second_row]) = [5 / 8, 3 / 8, 1]
   \<and> map footage (process_drilling_data [base_row, second_row]) = [80, 80, 80]"
  using scenario_A_merge [of base_row second_row]
  by (simp add: base_row_def second_row_def)

text \<open>
  Claim C5, as the code has it.  When the range found at the cursor has more than one
  row and the two consistency checks do not both hold, no synthesized row and no
  modification is recorded, and the cursor moves to the row after the last row of the
  range (\<open>sequence_end + 1\<close>), which is at least one row ahead; the warning case is
  treated alike.
\<close>

theorem range_check_failure_step:
  assumes "\<not> (entry_count (df ! cursor st) = 1 \<and> cursor st + 1 < length df
              \<and> entry_count (df ! (cursor st + 1)) = 1)"
    and "1 \<le> entry_count (df ! cursor st)"
    and "find_sequence_start df (cursor st) (cursor st)
          < find_sequence_end df (cursor st + 1) (cursor st)"
    and "\<not> (consistent_drill_info df (find_sequence_start df (cursor st) (cursor st))
                 (find_sequence_end df (cursor st + 1) (cursor st))
             \<and> depth_continuous df (find_sequence_start df (cursor st) (cursor st))
                 (find_sequence_end df (cursor st + 1) (cursor st)))"
  shows "new_rows_to_add (scan_step df st) = new_rows_to_add st
         \<and> rows_to_modify (scan_step df st) = rows_to_modify st
         \<and> cursor (scan_step df st) = find_sequence_end df (cursor st + 1) (cursor st) + 1
         \<and> cursor st < cursor (scan_step df st)"
  using assms find_sequence_end_from_cursor [of "cursor st" df]
  by (auto simp add: scan_step_def Let_def)

theorem range_check_failure_step_witness:
  "cursor (scan_step mismatch_df initial_state) = 2
   \<and> new_rows_to_add (scan_step mismatch_df initial_state) = []
   \<and> rows_to_modify (scan_step mismatch_df initial_state) = []"
  using range_check_failure_step [of mismatch_df initial_state]
  by (simp add: mismatch_df_def base_row_def second_row_def find_sequence_end.simps
      consistent_drill_info_def initial_state_def)

text \<open>
  Claim C5 as stated fails: on the table with entry counts 1, 2, 1 whose first two rows
  differ in the manufacturer, the range found at cursor 0 is rows 0 to 1, the checks
  fail, it is not the warning case, and the cursor moves from 0 to 2, not to 1.
\<close>

theorem range_check_failure_counterexample:
  "find_sequence_start mismatch_df 0 0 = 0
   \<and> find_sequence_end mismatch_df 1 0 = 1
   \<and> \<not> consistent_drill_info mismatch_df 0 1
   \<and> \<not> type_mismatch_warning mismatch_df 0 1
   \<and> cursor initial_state = 0
   \<and> cursor (scan_step mismatch_df initial_state) = 2"
  by (simp add: mismatch_df_def base_row_def second_row_def find_sequence_end.simps
      consistent_drill_info_def type_mismatch_warning_def initial_state_def scan_step_def Let_def)

lemma sum_list_abs_diff:
  fixes g h :: "nat \<Rightarrow> rat"
  assumes "\<forall>k\<in>set ks. \<bar>g k - h k\<bar> \<le> c"
  shows "\<bar>sum_list (map g ks) - sum_list (map h ks)\<bar> \<le> of_nat (length ks) * c"
  using assms
proof (induction ks)
  case Nil
  then show ?case by simp
next
  case (Cons k ks)
  then have a: "\<bar>g k - h k\<bar> \<le> c"
    and b: "\<bar>sum_list (map g ks) - sum_list (map h ks)\<bar> \<le> of_nat (length ks) * c"
    by simp_all
  have "\<bar>sum_list (map g (k # ks)) - sum_list (map h (k # ks))\<bar>
        \<le> \<bar>g k - h k\<bar> + \<bar>sum_list (map g ks) - sum_list (map h ks)\<bar>"
    by simp
  also have "\<dots> \<le> c + of_nat (length ks) * c" using a b by linarith
  finally show ?case by (simp add: algebra_simps)
qed

lemma sum_list_divide_const:
  fixes f :: "nat \<Rightarrow> rat"
  shows "sum_list (map (\<lambda>k. f k / t) ks) = sum_list (map f ks) / t"
  by (induction ks) (simp_all add: add_divide_distrib)

lemma sum_list_pos_rat:
  fixes f :: "nat \<Rightarrow> rat"
  assumes "ks \<noteq> []" and "\<forall>k\<in>set ks. 0 < f k"
  shows "0 < sum_list (map f ks)"
  using assms
proof (induction ks)
  case Nil
  then show ?case by simp
next
  case (Cons k ks)
  show ?case
  proof (cases "ks = []")
    case True
    with Cons.prems show ?thesis by simp
  next
    case False
    with Cons have "0 < sum_list (map f ks)" by simp
    moreover from Cons.prems have "0 < f k" by simp
    ultimately show ?thesis by simp
  qed
qed

lemma sum_list_some_filter:
  fixes g :: "nat \<Rightarrow> rat" and m :: "nat \<Rightarrow> rat option"
  shows "sum_list (map (\<lambda>k. case m k of None \<Rightarrow> 0 | Some v \<Rightarrow> g k) ks)
         = sum_list (map g (filter (\<lambda>k. m k \<noteq> None) ks))"
  by (induction ks) (auto split: option.splits)

lemma sum_list_some_filter_the:
  fixes g :: "nat \<Rightarrow> rat" and m :: "nat \<Rightarrow> rat option"
  shows "sum_list (map (\<lambda>k. case m k of None \<Rightarrow> 0 | Some v \<Rightarrow> v * g k) ks)
         = sum_list (map (\<lambda>k. the (m k) * g k) (filter (\<lambda>k. m k \<noteq> None) ks))"
  by (induction ks) (auto split: option.splits)

lemma sum_list_all_none:
  fixes g :: "nat \<Rightarrow> rat" and m :: "nat \<Rightarrow> rat option"
  assumes "\<forall>k\<in>set ks. m k = None"
  shows "sum_list (map (\<lambda>k. case m k of None \<Rightarrow> 0 | Some v \<Rightarrow> g k) ks) = 0"
  using assms by (induction ks) simp_all

text \<open>
  Claim C9, as the code has it.  The average of the mud density, and of each of the
  eight paired sensor columns, is the last row's value when the total footage is zero
  (or negative) and the footage-weighted mean over all rows of the range, with or
  without a mechanical rate, when it is positive.  The mechanical-rate average takes
  value and weight only from the rows that have a rate.  When that selective weight is
  not positive, the result is the last row's rate if the last row has one and 0
  otherwise; in particular it is 0 when no row of the range has a rate.  The synthesized
  row stores all ten averages rounded to 6 decimals.
\<close>

theorem weighted_average_fallbacks:
  assumes "s \<le> e"
  shows "(total_weight df s e = 0 \<longrightarrow> weighted_density df s e = mud_density (df ! e))
    \<and> (0 < total_weight df s e \<longrightarrow>
         weighted_density df s e =
           sum_list (map (\<lambda>k. mud_density (df ! k) * footage (df ! k)) [s..<Suc e])
           / sum_list (map (\<lambda>k. footage (df ! k)) [s..<Suc e]))
    \<and> (0 < total_weight_for_speed df s e \<longrightarrow>
         weighted_mechanical_speed df s e =
           sum_list (map (\<lambda>k. the (mech_speed (df ! k)) * footage (df ! k))
                      (filter (\<lambda>k. mech_speed (df ! k) \<noteq> None) [s..<Suc e]))
           / sum_list (map (\<lambda>k. footage (df ! k))
                      (filter (\<lambda>k. mech_speed (df ! k) \<noteq> None) [s..<Suc e])))
    \<and> (\<not> 0 < total_weight_for_speed df s e \<longrightarrow>
         weighted_mechanical_speed df s e =
           (case mech_speed (df ! e) of None \<Rightarrow> 0 | Some v \<Rightarrow> v))
    \<and> ((\<forall>k\<in>set [s..<Suc e]. mech_speed (df ! k) = None) \<longrightarrow>
         weighted_mechanical_speed df s e = 0)
    \<and> mud_density (merged_row df s e n) = py_round (weighted_density df s e) 6
    \<and> mech_speed (merged_row df s e n) = Some (py_round (weighted_mechanical_speed df s e) 6)
    \<and> (0 < total_weight df s e \<longrightarrow>
         weighted_average col df s e =
           sum_list (map (\<lambda>k. col (df ! k) * footage (df ! k)) [s..<Suc e])
           / sum_list (map (\<lambda>k. footage (df ! k)) [s..<Suc e]))
    \<and> (\<not> 0 < total_weight df s e \<longrightarrow> weighted_average col df s e = col (df ! e))
    \<and> weighted_density df s e = weighted_average mud_density df s e
    \<and> drill_press_a (merged_row df s e n) = py_round (weighted_average drill_press_a df s e) 6
    \<and> drill_press_b (merged_row df s e n) = py_round (weighted_average drill_press_b df s e) 6
    \<and> rpm_a (merged_row df s e n) = py_round (weighted_average rpm_a df s e) 6
    \<and> rpm_b (merged_row df s e n) = py_round (weighted_average rpm_b df s e) 6
    \<and> flow_a (merged_row df s e n) = py_round (weighted_average flow_a df s e) 6
    \<and> flow_b (merged_row df s e n) = py_round (weighted_average flow_b df s e) 6
    \<and> pump_press_a (merged_row df s e n) = py_round (weighted_average pump_press_a df s e) 6
    \<and> pump_press_b (merged_row df s e n) = py_round (weighted_average pump_press_b df s e) 6"
proof -
  define ks where "ks = [s..<Suc e]"
  have e_in: "e \<in> set ks" using assms by (simp add: ks_def)
  have tws: "total_weight_for_speed df s e =
      sum_list (map (\<lambda>k. footage (df ! k)) (filter (\<lambda>k. mech_speed (df ! k) \<noteq> None) ks))"
    unfolding total_weight_for_speed_def ks_def [symmetric]
    by (rule sum_list_some_filter)
  have num: "sum_list (map (\<lambda>k. case mech_speed (df ! k) of None \<Rightarrow> 0
                               | Some v \<Rightarrow> v * footage (df ! k)) ks) =
      sum_list (map (\<lambda>k. the (mech_speed (df ! k)) * footage (df ! k))
                 (filter (\<lambda>k. mech_speed (df ! k) \<noteq> None) ks))"
    by (rule sum_list_some_filter_the)
  have c1: "total_weight df s e = 0 \<longrightarrow> weighted_density df s e = mud_density (df ! e)"
    by (simp add: weighted_density_def weighted_average_def)
  have c2: "0 < total_weight df s e \<longrightarrow>
         weighted_density df s e =
           sum_list (map (\<lambda>k. mud_density (df ! k) * footage (df ! k)) ks)
           / sum_list (map (\<lambda>k. footage (df ! k)) ks)"
    by (simp add: weighted_density_def weighted_average_def total_weight_def ks_def)
  have c3: "0 < total_weight_for_speed df s e \<longrightarrow>
         weighted_mechanical_speed df s e =
           sum_list (map (\<lambda>k. the (mech_speed (df ! k)) * footage (df ! k))
                      (filter (\<lambda>k. mech_speed (df ! k) \<noteq> None) ks))
           / sum_list (map (\<lambda>k. footage (df ! k))
                      (filter (\<lambda>k. mech_speed (df ! k) \<noteq> None) ks))"
    unfolding weighted_mechanical_speed_def ks_def [symmetric] num
    by (simp add: tws)
  have c4: "\<not> 0 < total_weight_for_speed df s e \<longrightarrow>
         weighted_mechanical_speed df s e =
           (case mech_speed (df ! e) of None \<Rightarrow> 0 | Some v \<Rightarrow> v)"
    by (simp add: weighted_mechanical_speed_def)
  have c5: "(\<forall>k\<in>set ks. mech_speed (df ! k) = None) \<longrightarrow> weighted_mechanical_speed df s e = 0"
  proof
    assume a: "\<forall>k\<in>set ks. mech_speed (df ! k) = None"
    then have "total_weight_for_speed df s e = 0"
      unfolding total_weight_for_speed_def ks_def [symmetric] by (rule sum_list_all_none)
    moreover from a e_in have "mech_speed (df ! e) = None" by blast
    ultimately show "weighted_mechanical_speed df s e = 0"
      by (simp add: weighted_mechanical_speed_def)
  qed
  have c6: "mud_density (merged_row df s e n) = py_round (weighted_density df s e) 6"
    "mech_speed (merged_row df s e n) = Some (py_round (weighted_mechanical_speed df s e) 6)"
    by (simp_all add: merged_row_def)
  have c7: "0 < total_weight df s e \<longrightarrow>
         weighted_average col df s e =
           sum_list (map (\<lambda>k. col (df ! k) * footage (df ! k)) ks)
           / sum_list (map (\<lambda>k. footage (df ! k)) ks)"
    "\<not> 0 < total_weight df s e \<longrightarrow> weighted_average col df s e = col (df ! e)"
    "weighted_density df s e = weighted_average mud_density df s e"
    by (simp_all add: weighted_density_def weighted_average_def total_weight_def ks_def)
  have c8: "drill_press_a (merged_row df s e n) = py_round (weighted_average drill_press_a df s e) 6"
    "drill_press_b (merged_row df s e n) = py_round (weighted_average drill_press_b df s e) 6"
    "rpm_a (merged_row df s e n) = py_round (weighted_average rpm_a df s e) 6"
    "rpm_b (merged_row df s e n) = py_round (weighted_average rpm_b df s e) 6"
    "flow_a (merged_row df s e n) = py_round (weighted_average flow_a df s e) 6"
    "flow_b (merged_row df s e n) = py_round (weighted_average flow_b df s e) 6"
    "pump_press_a (merged_row df s e n) = py_round (weighted_average pump_press_a df s e) 6"
    "pump_press_b (merged_row df s e n) = py_round (weighted_average pump_press_b df s e) 6"
    by (simp_all add: merged_row_def)
  from c1 c2 c3 c4 c5 c6 c7 c8 show ?thesis unfolding ks_def by (intro conjI)
qed

theorem weighted_average_fallbacks_witness:
  "total_weight zero_footage_df 0 1 = 0
   \<and> weighted_density zero_footage_df 0 1 = 13 / 10
   \<and> 0 < total_weight partial_null_df 0 1
   \<and> weighted_density partial_null_df 0 1 = (2 * 50 + 6 / 5 * 30) / (50 + 30)
   \<and> 0 < total_weight_for_speed partial_null_df 0 1
   \<and> weighted_mechanical_speed partial_null_df 0 1 = 5 * 30 / 30
   \<and> \<not> 0 < total_weight_for_speed zero_footage_df 0 1
   \<and> weighted_mechanical_speed zero_footage_df 0 1 = 5
   \<and> weighted_mechanical_speed null_speed_df 0 1 = 0
   \<and> weighted_average rpm_a partial_null_df 0 1 = (3 * 50 + 3 * 30) / (50 + 30)
   \<and> weighted_average rpm_a zero_footage_df 0 1 = 3"
  using weighted_average_fallbacks [of 0 1 zero_footage_df 0 rpm_a]
    weighted_average_fallbacks [of 0 1 partial_null_df 0 rpm_a]
    weighted_average_fallbacks [of 0 1 null_speed_df 0 rpm_a]
  by (simp add: zero_footage_df_def partial_null_df_def null_speed_df_def base_row_def
      second_row_def total_weight_def total_weight_for_speed_def)

text \<open>
  Claim C9 as stated fails in its last part: when no row of the range has a mechanical
  rate, the last row's value is the empty cell, while the synthesized row gets 0.
\<close>

theorem null_speed_counterexample:
  "map mech_speed null_speed_df = [None, None]
   \<and> map mech_speed (process_drilling_data null_speed_df) = [None, None, Some 0]"
  by code_simp

subsection \<open>The scan and the write-back on any table\<close>

lemma find_sequence_end_less:
  assumes "e < length df"
  shows "find_sequence_end df j e < length df"
  using assms
proof (induction df j e rule: find_sequence_end.induct)
  case (1 df j sequence_end)
  show ?case
  proof (cases "j < length df \<and> entry_count (df ! j) = entry_count (df ! (j - 1)) + 1")
    case True
    with "1.IH" have "find_sequence_end df (j + 1) j < length df" by simp
    with True show ?thesis by (subst find_sequence_end.simps) simp
  next
    case False
    with "1.prems" show ?thesis by (subst find_sequence_end.simps) auto
  qed
qed

text \<open>The forward search stops where the chain of entry counts breaks.\<close>

lemma find_sequence_end_break:
  assumes "j = Suc e" and "Suc (find_sequence_end df j e) < length df"
  shows "entry_count (df ! Suc (find_sequence_end df j e))
           \<noteq> entry_count (df ! find_sequence_end df j e) + 1"
  using assms
proof (induction df j e rule: find_sequence_end.induct)
  case (1 df j sequence_end)
  show ?case
  proof (cases "j < length df \<and> entry_count (df ! j) = entry_count (df ! (j - 1)) + 1")
    case True
    then have eq: "find_sequence_end df j sequence_end = find_sequence_end df (j + 1) j"
      by (subst find_sequence_end.simps) simp
    from True "1.IH" [of] "1.prems" show ?thesis unfolding eq by simp
  next
    case False
    then have eq: "find_sequence_end df j sequence_end = sequence_end"
      by (subst find_sequence_end.simps) auto
    from False "1.prems" show ?thesis unfolding eq by auto
  qed
qed

lemma find_sequence_start_le: "find_sequence_start df k s \<le> max k s"
  by (induction df k s rule: find_sequence_start.induct) auto

lemma find_sequence_start_le_self: "find_sequence_start df i i \<le> i"
  using find_sequence_start_le [of df i i] by simp

lemma find_sequence_start_barrier:
  assumes "b \<le> k" and "k < length df" and "chain_break df b"
  shows "b \<le> find_sequence_start df k k"
  using assms
proof (induction k)
  case 0
  then show ?case by simp
next
  case (Suc k)
  show ?case
  proof (cases "entry_count (df ! k) = entry_count (df ! Suc k) - 1")
    case True
    have "b \<le> k"
    proof (rule ccontr)
      assume "\<not> b \<le> k"
      with Suc.prems(1) have "b = Suc k" by simp
      with Suc.prems(2,3) True show False by (simp add: chain_break_def)
    qed
    with Suc True show ?thesis by simp
  next
    case False
    with Suc.prems show ?thesis by simp
  qed
qed

lemma find_sequence_end_links:
  assumes "j = Suc e" and "e \<le> k" and "k < find_sequence_end df j e"
  shows "entry_count (df ! Suc k) = entry_count (df ! k) + 1"
  using assms
proof (induction df j e rule: find_sequence_end.induct)
  case (1 df j sequence_end)
  show ?case
  proof (cases "j < length df \<and> entry_count (df ! j) = entry_count (df ! (j - 1)) + 1")
    case True
    then have eq: "find_sequence_end df j sequence_end = find_sequence_end df (j + 1) j"
      by (subst find_sequence_end.simps) simp
    show ?thesis
    proof (cases "k = sequence_end")
      case True
      with \<open>j < length df \<and> entry_count (df ! j) = entry_count (df ! (j - 1)) + 1\<close> "1.prems"(1)
      show ?thesis by simp
    next
      case False
      with "1.prems" have "j \<le> k" by simp
      with True "1.IH" "1.prems" eq show ?thesis by simp
    qed
  next
    case False
    then have eq: "find_sequence_end df j sequence_end = sequence_end"
      by (subst find_sequence_end.simps) auto
    with "1.prems" show ?thesis by simp
  qed
qed

lemma find_sequence_start_chain:
  assumes "i \<le> e" and "\<forall>k. i \<le> k \<and> k < e \<longrightarrow> entry_count (df ! Suc k) = entry_count (df ! k) + 1"
  shows "find_sequence_start df e e = find_sequence_start df i i"
  using assms
proof (induction e)
  case 0
  then show ?case by simp
next
  case (Suc e)
  show ?case
  proof (cases "i = Suc e")
    case True
    then show ?thesis by simp
  next
    case False
    with Suc.prems have ie: "i \<le> e" by simp
    with Suc.prems have "entry_count (df ! Suc e) = entry_count (df ! e) + 1" by simp
    then have "find_sequence_start df (Suc e) (Suc e) = find_sequence_start df e e" by simp
    with Suc.IH ie Suc.prems(2) show ?thesis by simp
  qed
qed

lemma scan_step_cases:
  assumes "cursor st < length df"
  obtains (plain) "cursor st + 1 < length df"
      "new_rows_to_add (scan_step df st) = new_rows_to_add st"
      "rows_to_modify (scan_step df st) = rows_to_modify st
         @ [Plain (cursor st) (py_round 1 6), Plain (cursor st + 1) (py_round 1 6)]"
      "cursor (scan_step df st) = cursor st + 2"
  | (skip) "new_rows_to_add (scan_step df st) = new_rows_to_add st"
      "rows_to_modify (scan_step df st) = rows_to_modify st"
      "cursor st < cursor (scan_step df st)"
  | (merge) s e where "s = find_sequence_start df (cursor st) (cursor st)"
      "e = find_sequence_end df (cursor st + 1) (cursor st)" "s < e"
      "consistent_drill_info df s e" "depth_continuous df s e"
      "new_rows_to_add (scan_step df st)
         = new_rows_to_add st @ [(e, merged_row df s e (length (new_rows_to_add st)))]"
      "rows_to_modify (scan_step df st) = rows_to_modify st @ range_modifications df s e"
      "cursor (scan_step df st) = e + 1"
proof -
  let ?i = "cursor st"
  let ?s = "find_sequence_start df ?i ?i"
  let ?e = "find_sequence_end df (?i + 1) ?i"
  consider (a) "entry_count (df ! ?i) = 1 \<and> ?i + 1 < length df \<and> entry_count (df ! (?i + 1)) = 1"
    | (b) "\<not> (entry_count (df ! ?i) = 1 \<and> ?i + 1 < length df \<and> entry_count (df ! (?i + 1)) = 1)"
        "1 \<le> entry_count (df ! ?i)" "?s < ?e"
        "consistent_drill_info df ?s ?e \<and> depth_continuous df ?s ?e"
    | (c) "\<not> (entry_count (df ! ?i) = 1 \<and> ?i + 1 < length df \<and> entry_count (df ! (?i + 1)) = 1)"
        "\<not> (1 \<le> entry_count (df ! ?i) \<and> ?s < ?e
            \<and> consistent_drill_info df ?s ?e \<and> depth_continuous df ?s ?e)"
    by blast
  then show ?thesis
  proof cases
    case a
    then show ?thesis
      by (intro plain) (simp_all add: scan_step_def Let_def)
  next
    case b
    then show ?thesis
      by (intro merge [of ?s ?e])
        (auto simp add: scan_step_def Let_def merge_range_def type_mismatch_warning_def)
  next
    case c
    with find_sequence_end_from_cursor [of ?i df] show ?thesis
      by (intro skip) (auto simp add: scan_step_def Let_def)
  qed
qed

lemma round_half_even_of_int: "round_half_even (of_int z) = z"
  unfolding round_half_even_def Let_def by simp

lemma py_round_idem: "py_round (py_round x n) n = py_round x n"
proof -
  have "py_round x n * 10 ^ n = of_int (round_half_even (x * 10 ^ n))"
    by (simp add: py_round_def)
  then show ?thesis
    by (simp add: py_round_def [of "py_round x n"] round_half_even_of_int) (simp add: py_round_def)
qed

lemma length_apply_modification [simp]: "length (apply_modification df m) = length df"
  by (cases m) simp_all

lemma length_apply_modifications [simp]: "length (apply_modifications df ms) = length df"
  unfolding apply_modifications_def by (induction ms arbitrary: df) simp_all

lemma apply_modifications_Nil [simp]: "apply_modifications df [] = df"
  by (simp add: apply_modifications_def)

lemma apply_modifications_Cons:
  "apply_modifications df (m # ms) = apply_modifications (apply_modification df m) ms"
  by (simp add: apply_modifications_def)

lemma apply_modifications_append:
  "apply_modifications df (ms @ ms') = apply_modifications (apply_modifications df ms) ms'"
  by (simp add: apply_modifications_def)

lemma apply_modification_other:
  "modification_index m \<noteq> k \<Longrightarrow> apply_modification df m ! k = df ! k"
  by (cases m) simp_all

lemma apply_modifications_other:
  "\<forall>m\<in>set ms. modification_index m \<noteq> k \<Longrightarrow> apply_modifications df ms ! k = df ! k"
  by (induction ms arbitrary: df)
    (simp_all add: apply_modifications_Cons apply_modification_other)

lemma map_update_same:
  assumes "f y = f (xs ! i)"
  shows "map f (xs[i := y]) = map f xs"
proof (cases "i < length xs")
  case True
  with assms show ?thesis by (simp add: map_update list_eq_iff_nth_eq nth_list_update)
next
  case False
  then have "xs[i := y] = xs" by (simp add: list_update_beyond)
  then show ?thesis by simp
qed

lemma apply_modification_keeps:
  "map without_rewritten_fields (apply_modification df m) = map without_rewritten_fields df"
  by (cases m) (simp_all add: map_update_same without_rewritten_fields_def)

lemma apply_modifications_keeps:
  "map without_rewritten_fields (apply_modifications df ms) = map without_rewritten_fields df"
  by (induction ms arbitrary: df)
    (simp_all add: apply_modifications_Cons apply_modification_keeps)

text \<open>The rows of a merged range after its modifications have been applied.\<close>

lemma apply_range_modifications_nth:
  assumes "k < length df'"
  shows "apply_modifications df'
           (concat (map (\<lambda>k. [Depth k tot, HitRate k (rate k)]) ks)) ! k
         = (if k \<in> set ks
            then (df' ! k)\<lparr>footage := py_round tot 6, hit_rate := py_round (rate k) 6\<rparr>
            else df' ! k)"
  using assms
proof (induction ks arbitrary: df')
  case Nil
  then show ?case by simp
next
  case (Cons a ks)
  let ?g = "\<lambda>j r. r\<lparr>footage := py_round tot 6, hit_rate := py_round (rate j) 6\<rparr> :: row"
  define df2 where "df2 = apply_modification (apply_modification df' (Depth a tot))
                            (HitRate a (rate a))"
  have len: "length df2 = length df'" by (simp add: df2_def)
  have at_a: "df2 ! a = ?g a (df' ! a)" if "a < length df'"
    using that by (simp add: df2_def)
  have other: "df2 ! j = df' ! j" if "j \<noteq> a" for j
    using that by (simp add: df2_def)
  have step: "apply_modifications df'
      (concat (map (\<lambda>k. [Depth k tot, HitRate k (rate k)]) (a # ks)))
      = apply_modifications df2 (concat (map (\<lambda>k. [Depth k tot, HitRate k (rate k)]) ks))"
    by (simp add: apply_modifications_Cons df2_def)
  from Cons.prems len have k2: "k < length df2" by simp
  show ?case
  proof (cases "k = a")
    case True
    with Cons.prems at_a have "df2 ! k = ?g k (df' ! k)" by simp
    with Cons.IH [OF k2] True show ?thesis unfolding step by simp
  next
    case False
    with other have "df2 ! k = df' ! k" by simp
    with Cons.IH [OF k2] False show ?thesis unfolding step by simp
  qed
qed

lemma apply_range_modifications:
  assumes "k < length df'"
  shows "apply_modifications df' (range_modifications df s e) ! k
         = (if s \<le> k \<and> k \<le> e
            then (df' ! k)\<lparr>footage := py_round (total_depth df s e) 6,
                           hit_rate := rounded_hit_rate df s e k\<rparr>
            else df' ! k)"
proof -
  have r: "py_round (rounded_hit_rate df s e k) 6 = rounded_hit_rate df s e k"
    by (simp add: rounded_hit_rate_def py_round_idem)
  have "apply_modifications df' (range_modifications df s e) ! k
      = (if k \<in> set [s..<Suc e]
         then (df' ! k)\<lparr>footage := py_round (py_round (total_depth df s e) 6) 6,
                        hit_rate := py_round (rounded_hit_rate df s e k) 6\<rparr>
         else df' ! k)"
    unfolding range_modifications_def by (rule apply_range_modifications_nth [OF assms])
  then show ?thesis by (auto simp: r py_round_idem)
qed

lemma range_modifications_index:
  "m \<in> set (range_modifications df s e) \<Longrightarrow> s \<le> modification_index m \<and> modification_index m \<le> e"
  by (auto simp: range_modifications_def)

lemma merge_recorded_cong:
  assumes "merge_recorded df cur j em" and "\<forall>k\<le>fst em. cur' ! k = cur ! k"
  shows "merge_recorded df cur' j em"
  using assms unfolding merge_recorded_def Let_def by simp

lemma anchors_ok_initial: "anchors_ok df initial_state"
  by (simp add: anchors_ok_def initial_state_def anchor_barrier_def chain_break_def)

lemma merges_recorded_initial: "merges_recorded df initial_state"
  by (simp add: merges_recorded_def initial_state_def)

lemma scan_step_preserves:
  assumes ok: "anchors_ok df st" and rec: "merges_recorded df st" and c: "cursor st < length df"
  shows "anchors_ok df (scan_step df st) \<and> merges_recorded df (scan_step df st)"
  using c
proof (cases rule: scan_step_cases)
  case plain
  have b: "anchor_barrier (scan_step df st) = anchor_barrier st"
    by (simp add: anchor_barrier_def plain(2))
  from ok plain c have 1: "anchors_ok df (scan_step df st)"
    unfolding anchors_ok_def b by auto
  have 2: "merges_recorded df (scan_step df st)"
    unfolding merges_recorded_def plain(2)
  proof (intro allI impI)
    fix j assume j: "j < length (new_rows_to_add st)"
    let ?em = "new_rows_to_add st ! j"
    from j have "fst ?em \<in> set (map fst (new_rows_to_add st))" by simp
    with ok have lt: "fst ?em < cursor st" unfolding anchors_ok_def by force
    from rec j have r: "merge_recorded df (apply_modifications df (rows_to_modify st)) j ?em"
      by (simp add: merges_recorded_def)
    show "merge_recorded df (apply_modifications df (rows_to_modify (scan_step df st))) j ?em"
      using r
    proof (rule merge_recorded_cong)
      show "\<forall>k\<le>fst ?em. apply_modifications df (rows_to_modify (scan_step df st)) ! k
              = apply_modifications df (rows_to_modify st) ! k"
        using lt by (auto simp: plain(3) apply_modifications_append intro!: apply_modifications_other)
    qed
  qed
  from 1 2 show ?thesis ..
next
  case skip
  have b: "anchor_barrier (scan_step df st) = anchor_barrier st"
    by (simp add: anchor_barrier_def skip(1))
  from ok skip have 1: "anchors_ok df (scan_step df st)"
    unfolding anchors_ok_def b by auto
  from rec have 2: "merges_recorded df (scan_step df st)"
    by (simp add: merges_recorded_def skip)
  from 1 2 show ?thesis ..
next
  case (merge s e)
  let ?i = "cursor st"
  from ok have bar: "anchor_barrier st \<le> ?i" "chain_break df (anchor_barrier st)"
    and old_lt: "\<forall>a\<in>set (map fst (new_rows_to_add st)). a < anchor_barrier st"
    and old_sorted: "sorted_wrt (<) (map fst (new_rows_to_add st))"
    and old_mods: "\<forall>m\<in>set (rows_to_modify st). modification_index m < length df"
    unfolding anchors_ok_def by simp_all
  have ie: "?i \<le> e" unfolding merge(2) by (rule find_sequence_end_from_cursor)
  have en: "e < length df" unfolding merge(2) using c by (rule find_sequence_end_less)
  have bs: "anchor_barrier st \<le> s"
    unfolding merge(1) using bar(1) c bar(2) by (rule find_sequence_start_barrier)
  have brk: "chain_break df (e + 1)"
    using find_sequence_end_break [of "?i + 1" ?i df] en
    by (auto simp: chain_break_def merge(2))
  have se: "find_sequence_start df e e = s"
    unfolding merge(1)
  proof (rule find_sequence_start_chain [OF ie])
    show "\<forall>k. ?i \<le> k \<and> k < e \<longrightarrow> entry_count (df ! Suc k) = entry_count (df ! k) + 1"
      using find_sequence_end_links [of "?i + 1" ?i _ df] by (simp add: merge(2))
  qed
  have b': "anchor_barrier (scan_step df st) = e + 1"
    by (simp add: anchor_barrier_def merge(6))
  have new_mods: "\<forall>m\<in>set (range_modifications df s e). modification_index m < length df"
    using range_modifications_index [of _ df s e] en by force
  have 1: "anchors_ok df (scan_step df st)"
    unfolding anchors_ok_def b' merge(6,7,8)
    using old_sorted old_lt old_mods bs merge(3) en brk new_mods
    by (auto simp: sorted_wrt_append)
  have unchanged: "apply_modifications df (rows_to_modify (scan_step df st)) ! k
      = apply_modifications df (rows_to_modify st) ! k" if "k < s" for k
  proof -
    have "\<forall>m\<in>set (range_modifications df s e). modification_index m \<noteq> k"
      using that range_modifications_index [of _ df s e] by force
    then show ?thesis
      by (simp add: merge(7) apply_modifications_append apply_modifications_other)
  qed
  have 2: "merges_recorded df (scan_step df st)"
    unfolding merges_recorded_def
  proof (intro allI impI)
    fix j assume j: "j < length (new_rows_to_add (scan_step df st))"
    let ?cur' = "apply_modifications df (rows_to_modify (scan_step df st))"
    show "merge_recorded df ?cur' j (new_rows_to_add (scan_step df st) ! j)"
    proof (cases "j < length (new_rows_to_add st)")
      case True
      let ?em = "new_rows_to_add st ! j"
      from True have "fst ?em \<in> set (map fst (new_rows_to_add st))" by simp
      with old_lt bs have lt: "fst ?em < s" by force
      from rec True have "merge_recorded df (apply_modifications df (rows_to_modify st)) j ?em"
        by (simp add: merges_recorded_def)
      then have "merge_recorded df ?cur' j ?em"
        by (rule merge_recorded_cong) (use lt unchanged in auto)
      with True show ?thesis by (simp add: merge(6) nth_append)
    next
      case False
      with j have jl: "j = length (new_rows_to_add st)" by (simp add: merge(6))
      have rows: "footage (?cur' ! k) = py_round (total_depth df s e) 6
          \<and> hit_rate (?cur' ! k) = rounded_hit_rate df s e k" if "s \<le> k \<and> k \<le> e" for k
      proof -
        from that en have "k < length (apply_modifications df (rows_to_modify st))" by simp
        from apply_range_modifications [OF this, of df s e] that show ?thesis
          by (simp add: merge(7) apply_modifications_append)
      qed
      show ?thesis
        unfolding merge_recorded_def Let_def
        using rows merge(3) by (simp add: jl merge(6) se)
    qed
  qed
  from 1 2 show ?thesis ..
qed

lemma scan_preserves:
  assumes "anchors_ok df st" and "merges_recorded df st"
  shows "anchors_ok df (scan df st) \<and> merges_recorded df (scan df st)"
  using assms
proof (induction df st rule: scan.induct)
  case (1 df st)
  show ?case
  proof (cases "cursor st < length df")
    case True
    from scan_step_preserves [OF "1.prems" True] "1.IH" [OF True]
    have "anchors_ok df (scan df (scan_step df st)) \<and> merges_recorded df (scan df (scan_step df st))"
      by blast
    with True show ?thesis by (subst (1 2) scan.simps) simp
  next
    case False
    with "1.prems" show ?thesis by (subst (1 2) scan.simps) simp
  qed
qed

lemma scan_from_initial:
  "anchors_ok df (scan df initial_state) \<and> merges_recorded df (scan df initial_state)"
  using anchors_ok_initial merges_recorded_initial by (rule scan_preserves)

lemma insort_key_last:
  fixes f :: "'a \<Rightarrow> int"
  assumes "\<forall>y\<in>set ys. f y < f x"
  shows "insort_key f x ys = ys @ [x]"
  using assms by (induction ys) auto

lemma sorted_new_rows_rev:
  assumes "sorted_wrt (<) (map fst new_rows)"
  shows "sorted_new_rows new_rows = rev new_rows"
  using assms
proof (induction new_rows)
  case Nil
  then show ?case by (simp add: sorted_new_rows_def)
next
  case (Cons x xs)
  then have ih: "sort_key (\<lambda>x. - int (fst x)) xs = rev xs"
    and lt: "\<forall>y\<in>set xs. fst x < fst y"
    by (auto simp: sorted_new_rows_def)
  have "insort_key (\<lambda>x. - int (fst x)) x (rev xs) = rev xs @ [x]"
    by (rule insort_key_last) (use lt in auto)
  with ih show ?case by (simp add: sorted_new_rows_def)
qed

lemma inserted_before_append:
  "inserted_before (xs @ ys) k = inserted_before xs k + inserted_before ys k"
  by (simp add: inserted_before_def)

lemma inserted_before_all:
  assumes "\<forall>x\<in>set xs. fst x < k"
  shows "inserted_before xs k = length xs"
  using assms by (simp add: inserted_before_def)

lemma inserted_before_none:
  assumes "\<forall>x\<in>set xs. k \<le> fst x"
  shows "inserted_before xs k = 0"
  using assms by (auto simp: inserted_before_def filter_empty_conv)

lemma inserted_before_mono: "k \<le> k' \<Longrightarrow> inserted_before xs k \<le> inserted_before xs k'"
  unfolding inserted_before_def by (induction xs) auto

lemma inserted_before_anchor:
  assumes "sorted_wrt (<) (map fst xs)" and "j < length xs"
  shows "inserted_before xs (fst (xs ! j)) = j"
    and "inserted_before xs (fst (xs ! j) + 1) = j + 1"
proof -
  from assms(2) have split: "xs = take j xs @ xs ! j # drop (Suc j) xs"
    by (rule id_take_nth_drop)
  from assms(1) have "sorted_wrt (<) (map fst (take j xs @ xs ! j # drop (Suc j) xs))"
    using split by simp
  then have before: "\<forall>x\<in>set (take j xs). fst x < fst (xs ! j)"
    and after: "\<forall>x\<in>set (drop (Suc j) xs). fst (xs ! j) < fst x"
    by (auto simp: sorted_wrt_append)
  have "inserted_before xs (fst (xs ! j))
      = inserted_before (take j xs) (fst (xs ! j))
        + inserted_before (xs ! j # drop (Suc j) xs) (fst (xs ! j))"
    by (subst split) (simp only: inserted_before_append)
  also have "inserted_before (take j xs) (fst (xs ! j)) = length (take j xs)"
    by (rule inserted_before_all) (use before in auto)
  also have "inserted_before (xs ! j # drop (Suc j) xs) (fst (xs ! j)) = 0"
    by (rule inserted_before_none) (use after in auto)
  finally show "inserted_before xs (fst (xs ! j)) = j"
    using assms(2) by simp
  have "inserted_before xs (fst (xs ! j) + 1)
      = inserted_before (take j xs @ [xs ! j]) (fst (xs ! j) + 1)
        + inserted_before (drop (Suc j) xs) (fst (xs ! j) + 1)"
    by (subst split) (simp add: inserted_before_def)
  also have "inserted_before (take j xs @ [xs ! j]) (fst (xs ! j) + 1)
      = length (take j xs @ [xs ! j])"
    by (rule inserted_before_all) (use before in auto)
  also have "inserted_before (drop (Suc j) xs) (fst (xs ! j) + 1) = 0"
    by (rule inserted_before_none) (use after in auto)
  finally show "inserted_before xs (fst (xs ! j) + 1) = j + 1"
    using assms(2) by simp
qed

lemma insert_new_row_nth:
  assumes "e < length df"
  shows "length (insert_new_row df (e, r)) = length df + 1"
    and "k \<le> e \<Longrightarrow> insert_new_row df (e, r) ! k = df ! k"
    and "insert_new_row df (e, r) ! (e + 1) = r"
    and "e < k \<Longrightarrow> k < length df \<Longrightarrow> insert_new_row df (e, r) ! (k + 1) = df ! k"
  using assms by (auto simp: Let_def nth_append min_def)

text \<open>
  Inserting, last anchor first, synthesized rows whose anchors increase strictly and lie
  inside the table.
\<close>

lemma insert_descending:
  assumes "sorted_wrt (<) (map fst new_rows)" and "\<forall>x\<in>set new_rows. fst x < length df"
  shows "length (foldl insert_new_row df (rev new_rows)) = length df + length new_rows
    \<and> (\<forall>k<length df.
          foldl insert_new_row df (rev new_rows) ! (k + inserted_before new_rows k) = df ! k)
    \<and> (\<forall>j<length new_rows.
          foldl insert_new_row df (rev new_rows) ! (fst (new_rows ! j) + j + 1)
            = snd (new_rows ! j))"
  using assms
proof (induction new_rows arbitrary: df rule: rev_induct)
  case Nil
  then show ?case by (simp add: inserted_before_def)
next
  case (snoc x xs)
  obtain e r where x: "x = (e, r)" by (cases x)
  from snoc.prems x have sorted: "sorted_wrt (<) (map fst xs)"
    and below: "\<forall>y\<in>set xs. fst y < e" and e: "e < length df"
    by (auto simp: sorted_wrt_append)
  define df1 where "df1 = insert_new_row df (e, r)"
  note ins = insert_new_row_nth [OF e, where r = r, folded df1_def]
  have fold: "foldl insert_new_row df (rev (xs @ [x])) = foldl insert_new_row df1 (rev xs)"
    by (simp add: x df1_def)
  from below e ins(1) have "\<forall>y\<in>set xs. fst y < length df1" by auto
  from snoc.IH [OF sorted this]
  have len: "length (foldl insert_new_row df1 (rev xs)) = length df1 + length xs"
    and orig: "\<And>k. k < length df1 \<Longrightarrow>
          foldl insert_new_row df1 (rev xs) ! (k + inserted_before xs k) = df1 ! k"
    and synth: "\<And>j. j < length xs \<Longrightarrow>
          foldl insert_new_row df1 (rev xs) ! (fst (xs ! j) + j + 1) = snd (xs ! j)"
    by simp_all
  have ib_above: "inserted_before xs k = length xs" if "e < k" for k
    by (rule inserted_before_all) (use below that in force)
  have 1: "length (foldl insert_new_row df (rev (xs @ [x]))) = length df + length (xs @ [x])"
    unfolding fold len ins(1) by simp
  have 2: "foldl insert_new_row df (rev (xs @ [x])) ! (k + inserted_before (xs @ [x]) k) = df ! k"
    if k: "k < length df" for k
  proof (cases "k \<le> e")
    case True
    then have "inserted_before (xs @ [x]) k = inserted_before xs k"
      by (simp add: inserted_before_append inserted_before_def x)
    moreover from k ins(1) have "k < length df1" by simp
    ultimately show ?thesis unfolding fold using orig [of k] ins(2) [OF True] by simp
  next
    case False
    then have ek: "e < k" by simp
    then have "inserted_before (xs @ [x]) k = length xs + 1"
      by (simp add: inserted_before_append ib_above) (simp add: inserted_before_def x)
    moreover from ek have "inserted_before xs (k + 1) = length xs" by (simp add: ib_above)
    moreover from k ins(1) have "k + 1 < length df1" by simp
    ultimately show ?thesis
      unfolding fold using orig [of "k + 1"] ins(4) [OF ek k]
      by (simp add: add.commute add.left_commute)
  qed
  have 3: "foldl insert_new_row df (rev (xs @ [x])) ! (fst ((xs @ [x]) ! j) + j + 1)
      = snd ((xs @ [x]) ! j)" if j: "j < length (xs @ [x])" for j
  proof (cases "j < length xs")
    case True
    then show ?thesis unfolding fold using synth [of j] by (simp add: nth_append)
  next
    case False
    with j have jl: "j = length xs" by simp
    have "inserted_before xs (e + 1) = length xs" by (simp add: ib_above)
    moreover from e ins(1) have "e + 1 < length df1" by simp
    ultimately have "foldl insert_new_row df1 (rev xs) ! (e + 1 + length xs) = r"
      using orig [of "e + 1"] ins(3) by simp
    then show ?thesis unfolding fold by (simp add: jl x add.commute add.left_commute)
  qed
  from 1 2 3 show ?case by blast
qed

lemma length_with_hit_rate_column [simp]: "length (with_hit_rate_column df) = length df"
  by (simp add: with_hit_rate_column_def)

lemma length_rewritten_rows [simp]: "length (rewritten_rows df) = length df"
  by (simp add: rewritten_rows_def)

lemma scan_result_ok:
  "anchors_ok (with_hit_rate_column df) (scan_result df)"
  "merges_recorded (with_hit_rate_column df) (scan_result df)"
  using scan_from_initial [of "with_hit_rate_column df"] by (simp_all add: scan_result_def)

lemma scan_result_anchors:
  "sorted_wrt (<) (map fst (new_rows_to_add (scan_result df)))"
  "\<forall>x\<in>set (new_rows_to_add (scan_result df)). fst x < length df"
  using scan_result_ok(1) [of df] unfolding anchors_ok_def by force+

lemma process_drilling_data_structure:
  "process_drilling_data df
     = foldl insert_new_row (rewritten_rows df) (rev (new_rows_to_add (scan_result df)))"
  by (simp add: process_drilling_data_def Let_def insert_new_rows_def rewritten_rows_def
      sorted_new_rows_rev [OF scan_result_anchors(1)])

lemma process_drilling_data_positions:
  "length (process_drilling_data df) = length df + length (new_rows_to_add (scan_result df))"
  "k < length df \<Longrightarrow>
     process_drilling_data df ! (k + inserted_before (new_rows_to_add (scan_result df)) k)
       = rewritten_rows df ! k"
  "j < length (new_rows_to_add (scan_result df)) \<Longrightarrow>
     process_drilling_data df ! (fst (new_rows_to_add (scan_result df) ! j) + j + 1)
       = snd (new_rows_to_add (scan_result df) ! j)"
proof -
  have "\<forall>x\<in>set (new_rows_to_add (scan_result df)). fst x < length (rewritten_rows df)"
    using scan_result_anchors(2) [of df] by simp
  from insert_descending [OF scan_result_anchors(1) this]
  show "length (process_drilling_data df) = length df + length (new_rows_to_add (scan_result df))"
    "k < length df \<Longrightarrow>
     process_drilling_data df ! (k + inserted_before (new_rows_to_add (scan_result df)) k)
       = rewritten_rows df ! k"
    "j < length (new_rows_to_add (scan_result df)) \<Longrightarrow>
     process_drilling_data df ! (fst (new_rows_to_add (scan_result df) ! j) + j + 1)
       = snd (new_rows_to_add (scan_result df) ! j)"
    unfolding process_drilling_data_structure by simp_all
qed

lemma recorded_merge:
  assumes "j < length (new_rows_to_add (scan_result df))"
  defines "e \<equiv> fst (new_rows_to_add (scan_result df) ! j)"
  defines "s \<equiv> find_sequence_start (with_hit_rate_column df) e e"
  shows "s < e" and "e < length df"
    and "snd (new_rows_to_add (scan_result df) ! j) = merged_row (with_hit_rate_column df) s e j"
    and "\<And>k. s \<le> k \<Longrightarrow> k \<le> e \<Longrightarrow>
           footage (rewritten_rows df ! k) = py_round (total_depth (with_hit_rate_column df) s e) 6
           \<and> hit_rate (rewritten_rows df ! k) = rounded_hit_rate (with_hit_rate_column df) s e k"
proof -
  from scan_result_ok(2) [of df] assms(1)
  have m: "merge_recorded (with_hit_rate_column df) (rewritten_rows df) j
      (new_rows_to_add (scan_result df) ! j)"
    by (simp add: merges_recorded_def rewritten_rows_def)
  then show "s < e"
    and "snd (new_rows_to_add (scan_result df) ! j) = merged_row (with_hit_rate_column df) s e j"
    and "\<And>k. s \<le> k \<Longrightarrow> k \<le> e \<Longrightarrow>
           footage (rewritten_rows df ! k) = py_round (total_depth (with_hit_rate_column df) s e) 6
           \<and> hit_rate (rewritten_rows df ! k) = rounded_hit_rate (with_hit_rate_column df) s e k"
    unfolding merge_recorded_def Let_def e_def s_def by simp_all
  from assms(1) scan_result_anchors(2) [of df] show "e < length df"
    unfolding e_def by simp
qed

lemma shares_sum_tolerance:
  fixes h :: "nat \<Rightarrow> rat"
  assumes "s \<le> e" and "\<forall>k\<in>set [s..<Suc e]. 0 < footage (df ! k)"
    and "\<forall>k\<in>set [s..<Suc e]. \<bar>h k - footage (df ! k) / total_depth df s e\<bar> \<le> c"
  shows "\<bar>sum_list (map h [s..<Suc e]) - 1\<bar> \<le> of_nat (e - s + 1) * c"
proof -
  define t where "t = total_depth df s e"
  define ks where "ks = [s..<Suc e]"
  have ne: "ks \<noteq> []" and len: "length ks = e - s + 1"
    using assms(1) by (simp_all add: ks_def)
  have pos: "\<forall>k\<in>set ks. 0 < footage (df ! k)"
    using assms(2) unfolding ks_def .
  have t: "t = sum_list (map (\<lambda>k. footage (df ! k)) ks)"
    by (simp only: t_def total_depth_def ks_def)
  have tpos: "0 < t"
    unfolding t using sum_list_pos_rat [OF ne pos] .
  have one: "sum_list (map (\<lambda>k. footage (df ! k) / t) ks) = 1"
    using tpos by (simp add: sum_list_divide_const t [symmetric])
  have each: "\<forall>k\<in>set ks. \<bar>h k - footage (df ! k) / t\<bar> \<le> c"
    using assms(3) unfolding ks_def t_def .
  have "\<bar>sum_list (map h ks) - sum_list (map (\<lambda>k. footage (df ! k) / t) ks)\<bar>
        \<le> of_nat (length ks) * c"
    using each by (rule sum_list_abs_diff)
  then have "\<bar>sum_list (map h ks) - 1\<bar> \<le> of_nat (e - s + 1) * c"
    unfolding one len .
  then show ?thesis unfolding ks_def .
qed

lemma rounded_hit_rate_sum:
  assumes "s \<le> e" and "\<forall>k\<in>set [s..<Suc e]. 0 < footage (df ! k)"
  shows "\<bar>sum_list (map (rounded_hit_rate df s e) [s..<Suc e]) - 1\<bar>
           \<le> of_nat (e - s + 1) * (1 / (2 * 10 ^ 6))"
proof (rule shares_sum_tolerance [OF assms])
  have "0 < total_depth df s e"
    unfolding total_depth_def using assms by (intro sum_list_pos_rat) simp_all
  then show "\<forall>k\<in>set [s..<Suc e].
      \<bar>rounded_hit_rate df s e k - footage (df ! k) / total_depth df s e\<bar> \<le> 1 / (2 * 10 ^ 6)"
    using py_round_error [of _ 6] by (simp add: rounded_hit_rate_def)
qed

text \<open>
  Claim C7, as the code has it.  Take the \<open>j\<close>-th merge that the scan records, with
  its range from \<open>s\<close> to its anchor \<open>e\<close>.  Each row \<open>k\<close> of the range is row
  \<open>k + inserted_before new_rows k\<close> of the output of \<open>process_drilling_data\<close>; its
  hit-rate is its own footage divided by the merged total, rounded to 6 decimals, and
  its footage the merged total.  When all footages of the range are positive, these
  hit-rates sum to 1 up to one unit of the sixth decimal per row: the sum differs from 1
  by at most \<open>n * 1e-6\<close> for a range of \<open>n\<close> rows.  Each rounding contributes half a
  unit at most; the other half is the room left for a float quotient that falls on the
  other side of a decimal tie: the bound holds for any values within \<open>1e-6\<close> of the
  exact shares.
\<close>

theorem merged_run_hit_rates:
  assumes "j < length (new_rows_to_add (scan_result df))"
  shows "let table = with_hit_rate_column df;
             new_rows = new_rows_to_add (scan_result df);
             e = fst (new_rows ! j);
             s = find_sequence_start table e e;
             out = process_drilling_data df
         in s < e \<and> e < length df
            \<and> (\<forall>k. s \<le> k \<and> k \<le> e \<longrightarrow>
                  hit_rate (out ! (k + inserted_before new_rows k))
                    = py_round (if total_depth table s e \<noteq> 0
                                then footage (table ! k) / total_depth table s e else 1) 6
                  \<and> footage (out ! (k + inserted_before new_rows k))
                    = py_round (total_depth table s e) 6)
            \<and> (list_all (\<lambda>k. 0 < footage (table ! k)) [s..<Suc e] \<longrightarrow>
                  \<bar>sum_list (map (\<lambda>k. hit_rate (out ! (k + inserted_before new_rows k)))
                              [s..<Suc e]) - 1\<bar>
                    \<le> of_nat (e - s + 1) / 10 ^ 6
                  \<and> (\<forall>h. list_all (\<lambda>k. \<bar>h k - footage (table ! k) / total_depth table s e\<bar>
                                            \<le> 1 / 10 ^ 6) [s..<Suc e] \<longrightarrow>
                         \<bar>sum_list (map h [s..<Suc e]) - 1\<bar> \<le> of_nat (e - s + 1) / 10 ^ 6))"
proof -
  define table where "table = with_hit_rate_column df"
  define new_rows where "new_rows = new_rows_to_add (scan_result df)"
  define e where "e = fst (new_rows ! j)"
  define s where "s = find_sequence_start table e e"
  define out where "out = process_drilling_data df"
  have rm: "s < e" "e < length df"
    "\<And>k. s \<le> k \<Longrightarrow> k \<le> e \<Longrightarrow>
       footage (rewritten_rows df ! k) = py_round (total_depth table s e) 6
       \<and> hit_rate (rewritten_rows df ! k) = rounded_hit_rate table s e k"
    using recorded_merge(1,2,4) [OF assms]
    unfolding s_def e_def table_def new_rows_def by blast+
  have pos: "out ! (k + inserted_before new_rows k) = rewritten_rows df ! k" if "k \<le> e" for k
  proof -
    from that rm(2) have "k < length df" by simp
    from process_drilling_data_positions(2) [OF this] show ?thesis
      unfolding out_def new_rows_def .
  qed
  have rows: "hit_rate (out ! (k + inserted_before new_rows k)) = rounded_hit_rate table s e k
      \<and> footage (out ! (k + inserted_before new_rows k)) = py_round (total_depth table s e) 6"
    if "s \<le> k" "k \<le> e" for k
    using rm(3) [OF that] pos [OF that(2)] by simp
  have sum: "\<bar>sum_list (map (\<lambda>k. hit_rate (out ! (k + inserted_before new_rows k)))
                              [s..<Suc e]) - 1\<bar> \<le> of_nat (e - s + 1) / 10 ^ 6"
    if p: "list_all (\<lambda>k. 0 < footage (table ! k)) [s..<Suc e]"
  proof -
    have eq: "map (\<lambda>k. hit_rate (out ! (k + inserted_before new_rows k))) [s..<Suc e]
        = map (rounded_hit_rate table s e) [s..<Suc e]"
      by (rule map_cong) (use rows in auto)
    from p have "\<forall>k\<in>set [s..<Suc e]. 0 < footage (table ! k)"
      by (simp only: list_all_iff)
    with rm(1) have b: "\<bar>sum_list (map (rounded_hit_rate table s e) [s..<Suc e]) - 1\<bar>
           \<le> of_nat (e - s + 1) / (2 * 10 ^ 6)"
      using rounded_hit_rate_sum [of s e table] by simp
    have c: "(of_nat (e - s + 1) :: rat) / (2 * 10 ^ 6) \<le> of_nat (e - s + 1) / 10 ^ 6"
      by (simp add: field_simps)
    have "\<bar>sum_list (map (\<lambda>k. hit_rate (out ! (k + inserted_before new_rows k)))
                              [s..<Suc e]) - 1\<bar>
        = \<bar>sum_list (map (rounded_hit_rate table s e) [s..<Suc e]) - 1\<bar>"
      by (simp only: eq)
    also note b
    also note c
    finally show ?thesis .
  qed
  have tol: "\<bar>sum_list (map h [s..<Suc e]) - 1\<bar> \<le> of_nat (e - s + 1) / 10 ^ 6"
    if p: "list_all (\<lambda>k. 0 < footage (table ! k)) [s..<Suc e]"
      and h: "list_all (\<lambda>k. \<bar>h k - footage (table ! k) / total_depth table s e\<bar>
                             \<le> 1 / 10 ^ 6) [s..<Suc e]"
    for h :: "nat \<Rightarrow> rat"
  proof -
    from p have 1: "\<forall>k\<in>set [s..<Suc e]. 0 < footage (table ! k)"
      by (simp only: list_all_iff)
    from h have 2: "\<forall>k\<in>set [s..<Suc e].
        \<bar>h k - footage (table ! k) / total_depth table s e\<bar> \<le> 1 / 10 ^ 6"
      by (simp only: list_all_iff)
    from rm(1) have 0: "s \<le> e" by simp
    from shares_sum_tolerance [OF 0 1 2] show ?thesis by simp
  qed
  from rm(1,2) rows sum tol show ?thesis
    unfolding Let_def table_def [symmetric] new_rows_def [symmetric] e_def [symmetric]
      s_def [symmetric] out_def [symmetric]
    by (simp add: rounded_hit_rate_def del: upt_Suc)
qed

theorem merged_run_hit_rates_witness:
  "0 < length (new_rows_to_add (scan_result six_rows_df))
   \<and> fst (new_rows_to_add (scan_result six_rows_df) ! 0) = 5
   \<and> find_sequence_start (with_hit_rate_column six_rows_df) 5 5 = 0
   \<and> list_all (\<lambda>k. 0 < footage (with_hit_rate_column six_rows_df ! k)) [0..<Suc 5]
   \<and> \<bar>sum_list (map (\<lambda>k. hit_rate (process_drilling_data six_rows_df
            ! (k + inserted_before (new_rows_to_add (scan_result six_rows_df)) k)))
          [0..<Suc 5]) - 1\<bar> \<le> of_nat (5 - 0 + 1) / 10 ^ 6
   \<and> hit_rate (process_drilling_data six_rows_df
         ! (2 + inserted_before (new_rows_to_add (scan_result six_rows_df)) 2))
       = py_round (if total_depth (with_hit_rate_column six_rows_df) 0 5 \<noteq> 0
                   then footage (with_hit_rate_column six_rows_df ! 2)
                          / total_depth (with_hit_rate_column six_rows_df) 0 5
                   else 1) 6
   \<and> list_all (\<lambda>k. \<bar>166667 / 1000000 - footage (with_hit_rate_column six_rows_df ! k)
                          / total_depth (with_hit_rate_column six_rows_df) 0 5\<bar>
                     \<le> 1 / 10 ^ 6) [0..<Suc 5]
   \<and> \<bar>sum_list (map (\<lambda>k. 166667 / 1000000) [0..<Suc 5]) - 1\<bar>
       \<le> (of_nat (5 - 0 + 1) :: rat) / 10 ^ 6"
proof -
  have h: "0 < length (new_rows_to_add (scan_result six_rows_df))" by code_simp
  have e: "fst (new_rows_to_add (scan_result six_rows_df) ! 0) = 5" by code_simp
  have s: "find_sequence_start (with_hit_rate_column six_rows_df) 5 5 = 0" by code_simp
  have p: "list_all (\<lambda>k. 0 < footage (with_hit_rate_column six_rows_df ! k)) [0..<Suc 5]"
    by code_simp
  note t = merged_run_hit_rates [OF h, unfolded Let_def e s]
  from t p have sum: "\<bar>sum_list (map (\<lambda>k. hit_rate (process_drilling_data six_rows_df
            ! (k + inserted_before (new_rows_to_add (scan_result six_rows_df)) k)))
          [0..<Suc 5]) - 1\<bar> \<le> of_nat (5 - 0 + 1) / 10 ^ 6"
    by blast
  from t have "(0::nat) \<le> 2 \<and> (2::nat) \<le> 5 \<longrightarrow>
       hit_rate (process_drilling_data six_rows_df
         ! (2 + inserted_before (new_rows_to_add (scan_result six_rows_df)) 2))
       = py_round (if total_depth (with_hit_rate_column six_rows_df) 0 5 \<noteq> 0
                   then footage (with_hit_rate_column six_rows_df ! 2)
                          / total_depth (with_hit_rate_column six_rows_df) 0 5
                   else 1) 6"
    by blast
  then have row: "hit_rate (process_drilling_data six_rows_df
         ! (2 + inserted_before (new_rows_to_add (scan_result six_rows_df)) 2))
       = py_round (if total_depth (with_hit_rate_column six_rows_df) 0 5 \<noteq> 0
                   then footage (with_hit_rate_column six_rows_df ! 2)
                          / total_depth (with_hit_rate_column six_rows_df) 0 5
                   else 1) 6"
    by simp
  have near: "list_all (\<lambda>k. \<bar>166667 / 1000000 - footage (with_hit_rate_column six_rows_df ! k)
                          / total_depth (with_hit_rate_column six_rows_df) 0 5\<bar>
                     \<le> 1 / 10 ^ 6) [0..<Suc 5]"
    by code_simp
  from t p have "\<forall>h. list_all (\<lambda>k. \<bar>h k - footage (with_hit_rate_column six_rows_df ! k)
                          / total_depth (with_hit_rate_column six_rows_df) 0 5\<bar>
                     \<le> 1 / 10 ^ 6) [0..<Suc 5] \<longrightarrow>
       \<bar>sum_list (map h [0..<Suc 5]) - 1\<bar> \<le> of_nat (5 - 0 + 1) / 10 ^ 6"
    by blast
  then have "list_all (\<lambda>k. \<bar>166667 / 1000000 - footage (with_hit_rate_column six_rows_df ! k)
                          / total_depth (with_hit_rate_column six_rows_df) 0 5\<bar>
                     \<le> 1 / 10 ^ 6) [0..<Suc 5] \<longrightarrow>
       \<bar>sum_list (map (\<lambda>k. 166667 / 1000000) [0..<Suc 5]) - 1\<bar>
         \<le> (of_nat (5 - 0 + 1) :: rat) / 10 ^ 6"
    by (rule allE [of _ "\<lambda>k. 166667 / 1000000"])
  with near have tol: "\<bar>sum_list (map (\<lambda>k. 166667 / 1000000) [0..<Suc 5]) - 1\<bar>
       \<le> (of_nat (5 - 0 + 1) :: rat) / 10 ^ 6"
    by (rule rev_mp)
  from h e s p sum row near tol show ?thesis by (intro conjI)
qed

text \<open>
  Claim C7 as stated fails: six rows of footage 1 merge into one run of total footage 6,
  each hit-rate is 0.166667, and their sum 1.000002 is further than \<open>1e-6\<close> from 1.
\<close>

theorem hit_rate_sum_counterexample:
  "map footage six_rows_df = [1, 1, 1, 1, 1, 1]
   \<and> map hit_rate (process_drilling_data six_rows_df) =
       [166667 / 1000000, 166667 / 1000000, 166667 / 1000000, 166667 / 1000000,
        166667 / 1000000, 166667 / 1000000, 1]
   \<and> map footage (process_drilling_data six_rows_df) = [6, 6, 6, 6, 6, 6, 6]
   \<and> \<not> \<bar>sum_list (take 6 (map hit_rate (process_drilling_data six_rows_df))) - 1\<bar>
         \<le> 1 / 10 ^ 6"
  by code_simp

text \<open>
  Claim C8.  Take the \<open>j\<close>-th merge that the scan records, with its range from \<open>s\<close>
  to its anchor \<open>e\<close>, the last row of the range.  The output is the table to which
  every modification has been applied (\<open>rewritten_rows\<close>), with the synthesized rows
  inserted into it one by one, largest anchor first.  In the output the rewritten last
  row of the range is row \<open>e + j\<close> (the \<open>j\<close> synthesized rows of the earlier ranges
  precede it) and the synthesized row of the range is the next one, row \<open>e + j + 1\<close>.
\<close>

theorem synthesized_rows_follow_their_range:
  assumes "j < length (new_rows_to_add (scan_result df))"
  shows "let table = with_hit_rate_column df;
             new_rows = new_rows_to_add (scan_result df);
             e = fst (new_rows ! j);
             s = find_sequence_start table e e;
             out = process_drilling_data df
         in s < e \<and> e < length df
            \<and> snd (new_rows ! j) = merged_row table s e j
            \<and> out = foldl insert_new_row (rewritten_rows df) (rev new_rows)
            \<and> sorted_wrt (>) (map fst (rev new_rows))
            \<and> out ! (e + j) = rewritten_rows df ! e
            \<and> out ! (e + j + 1) = snd (new_rows ! j)"
proof -
  define new_rows where "new_rows = new_rows_to_add (scan_result df)"
  define e where "e = fst (new_rows ! j)"
  have j: "j < length new_rows" using assms by (simp add: new_rows_def)
  have sorted: "sorted_wrt (<) (map fst new_rows)"
    unfolding new_rows_def by (rule scan_result_anchors(1))
  have e: "e < length df"
    using recorded_merge(2) [OF assms] by (simp add: e_def new_rows_def)
  have desc: "sorted_wrt (>) (map fst (rev new_rows))"
    using sorted by (simp add: rev_map [symmetric] sorted_wrt_rev)
  have "inserted_before new_rows e = j"
    unfolding e_def using sorted j by (rule inserted_before_anchor(1))
  with process_drilling_data_positions(2) [OF e]
  have last: "process_drilling_data df ! (e + j) = rewritten_rows df ! e"
    by (simp add: new_rows_def)
  from recorded_merge(1,2,3) [OF assms] process_drilling_data_structure [of df]
    process_drilling_data_positions(3) [OF assms] desc last
  show ?thesis
    unfolding Let_def e_def new_rows_def by simp
qed

theorem synthesized_rows_follow_their_range_witness:
  "1 < length (new_rows_to_add (scan_result two_runs_df))
   \<and> map fst (new_rows_to_add (scan_result two_runs_df)) = [1, 3]
   \<and> find_sequence_start (with_hit_rate_column two_runs_df) 3 3 = 2
   \<and> snd (new_rows_to_add (scan_result two_runs_df) ! 1)
       = merged_row (with_hit_rate_column two_runs_df) 2 3 1
   \<and> process_drilling_data two_runs_df ! (3 + 1)  = rewritten_rows two_runs_df ! 3
   \<and> process_drilling_data two_runs_df ! (3 + 1 + 1)
       = snd (new_rows_to_add (scan_result two_runs_df) ! 1)
   \<and> map seq_no (process_drilling_data two_runs_df)
       = [SeqNum 1, SeqNum 2, seq_no (snd (new_rows_to_add (scan_result two_runs_df) ! 0)),
          SeqNum 3, SeqNum 4, seq_no (snd (new_rows_to_add (scan_result two_runs_df) ! 1))]"
proof -
  have h: "1 < length (new_rows_to_add (scan_result two_runs_df))" by code_simp
  have a: "map fst (new_rows_to_add (scan_result two_runs_df)) = [1, 3]" by code_simp
  have e: "fst (new_rows_to_add (scan_result two_runs_df) ! 1) = 3" by code_simp
  have s: "find_sequence_start (with_hit_rate_column two_runs_df) 3 3 = 2" by code_simp
  have l: "map seq_no (process_drilling_data two_runs_df)
       = [SeqNum 1, SeqNum 2, seq_no (snd (new_rows_to_add (scan_result two_runs_df) ! 0)),
          SeqNum 3, SeqNum 4, seq_no (snd (new_rows_to_add (scan_result two_runs_df) ! 1))]"
    by code_simp
  note t = synthesized_rows_follow_their_range [OF h, unfolded Let_def e s]
  from t h a s l show ?thesis by (intro conjI) blast+
qed

text \<open>
  Claim C10.  The output has one row for each input row and one for each synthesized
  row.  Input row \<open>k\<close> is row \<open>k + inserted_before new_rows k\<close> of the output, with
  no column changed but the footage and the hit-rate; these positions increase with
  \<open>k\<close>, so the input rows keep their order.  The synthesized rows are at other
  positions, and every row of the output is at a position of one of the two kinds, so
  no input row is dropped or repeated.
\<close>

theorem input_rows_kept_in_order:
  "let new_rows = new_rows_to_add (scan_result df);
       out = process_drilling_data df
   in length out = length df + length new_rows
      \<and> (\<forall>k<length df. without_rewritten_fields (out ! (k + inserted_before new_rows k))
                          = without_rewritten_fields (df ! k))
      \<and> (\<forall>k k'. k < k' \<longrightarrow> k + inserted_before new_rows k < k' + inserted_before new_rows k')
      \<and> (\<forall>j<length new_rows.
            out ! (fst (new_rows ! j) + j + 1) = snd (new_rows ! j)
            \<and> (\<forall>k<length df. k + inserted_before new_rows k \<noteq> fst (new_rows ! j) + j + 1))
      \<and> (\<forall>p<length out.
            (\<exists>k<length df. p = k + inserted_before new_rows k)
            \<or> (\<exists>j<length new_rows. p = fst (new_rows ! j) + j + 1))"
proof -
  define new_rows where "new_rows = new_rows_to_add (scan_result df)"
  define out where "out = process_drilling_data df"
  define n where "n = length df"
  define m where "m = length new_rows"
  define f where "f k = k + inserted_before new_rows k" for k
  define g where "g j = fst (new_rows ! j) + j + 1" for j
  have sorted: "sorted_wrt (<) (map fst new_rows)"
    unfolding new_rows_def by (rule scan_result_anchors(1))
  have anchors: "fst (new_rows ! j) < n" if "j < m" for j
    using that scan_result_anchors(2) [of df] by (simp add: new_rows_def n_def m_def)
  have len: "length out = n + m"
    by (simp add: out_def n_def m_def new_rows_def process_drilling_data_positions(1))
  have kept: "without_rewritten_fields (out ! f k) = without_rewritten_fields (df ! k)"
    if "k < n" for k
  proof -
    from that have k: "k < length df" by (simp add: n_def)
    have "out ! f k = rewritten_rows df ! k"
      using process_drilling_data_positions(2) [OF k] by (simp add: out_def f_def new_rows_def)
    moreover have "map without_rewritten_fields (rewritten_rows df)
        = map without_rewritten_fields (with_hit_rate_column df)"
      unfolding rewritten_rows_def by (rule apply_modifications_keeps)
    then have "without_rewritten_fields (rewritten_rows df ! k)
        = without_rewritten_fields (with_hit_rate_column df ! k)"
      using k by (metis length_map length_rewritten_rows length_with_hit_rate_column nth_map)
    moreover have "without_rewritten_fields (with_hit_rate_column df ! k)
        = without_rewritten_fields (df ! k)"
      using k by (simp add: with_hit_rate_column_def without_rewritten_fields_def)
    ultimately show ?thesis by simp
  qed
  have f_mono: "f k < f k'" if "k < k'" for k k'
    using that inserted_before_mono [of k k' new_rows] by (simp add: f_def)
  have g_mono: "g j < g j'" if "j < j'" "j' < m" for j j'
  proof -
    from sorted that have "fst (new_rows ! j) < fst (new_rows ! j')"
      by (simp add: sorted_wrt_iff_nth_less m_def)
    with that show ?thesis by (simp add: g_def)
  qed
  have synth: "out ! g j = snd (new_rows ! j)" if "j < m" for j
    using that process_drilling_data_positions(3) [of j df]
    by (simp add: out_def g_def new_rows_def m_def)
  have apart: "f k \<noteq> g j" if "j < m" for j k
  proof (cases "k \<le> fst (new_rows ! j)")
    case True
    from that sorted have "inserted_before new_rows (fst (new_rows ! j)) = j"
      by (simp add: inserted_before_anchor(1) m_def)
    with inserted_before_mono [OF True, of new_rows] True show ?thesis
      by (simp add: f_def g_def)
  next
    case False
    then have "fst (new_rows ! j) + 1 \<le> k" by simp
    from that sorted have "inserted_before new_rows (fst (new_rows ! j) + 1) = j + 1"
      by (intro inserted_before_anchor(2)) (simp_all add: m_def)
    with inserted_before_mono [OF \<open>fst (new_rows ! j) + 1 \<le> k\<close>, of new_rows]
    have "j + 1 \<le> inserted_before new_rows k"
      by simp
    with False show ?thesis by (simp add: f_def g_def)
  qed
  have cover: "(\<exists>k<n. p = f k) \<or> (\<exists>j<m. p = g j)" if "p < n + m" for p
  proof -
    have inj_f: "inj_on f {..<n}"
      by (rule inj_onI) (metis f_mono less_irrefl linorder_neqE_nat)
    have inj_g: "inj_on g {..<m}"
    proof (rule inj_onI)
      fix a b assume "a \<in> {..<m}" "b \<in> {..<m}" "g a = g b"
      then show "a = b"
        using g_mono [of a b] g_mono [of b a] by (metis lessThan_iff less_irrefl linorder_neqE_nat)
    qed
    have disj: "f ` {..<n} \<inter> g ` {..<m} = {}"
      using apart by auto
    have f_le: "f k < n + m" if "k < n" for k
    proof -
      have "inserted_before new_rows k \<le> m"
        by (simp add: inserted_before_def m_def)
      with that show ?thesis by (simp add: f_def)
    qed
    have g_le: "g j < n + m" if "j < m" for j
      using that anchors [OF that] by (simp add: g_def)
    have sub: "f ` {..<n} \<union> g ` {..<m} \<subseteq> {..<n + m}"
      using f_le g_le by auto
    have "card (f ` {..<n} \<union> g ` {..<m}) = n + m"
      using disj inj_f inj_g by (simp add: card_Un_disjoint card_image)
    with sub have "f ` {..<n} \<union> g ` {..<m} = {..<n + m}"
      by (intro card_subset_eq) simp_all
    with that have "p \<in> f ` {..<n} \<union> g ` {..<m}" by simp
    then show ?thesis by auto
  qed
  from len kept f_mono synth apart cover show ?thesis
    unfolding Let_def new_rows_def [symmetric] out_def [symmetric]
    unfolding n_def m_def f_def g_def
    by (intro conjI allI impI) (simp_all)
qed

theorem input_rows_kept_in_order_witness:
  "length (process_drilling_data two_runs_df) = length two_runs_df + 2
   \<and> map (\<lambda>k. k + inserted_before (new_rows_to_add (scan_result two_runs_df)) k) [0, 1, 2, 3]
       = [0, 1, 3, 4]
   \<and> without_rewritten_fields (process_drilling_data two_runs_df
         ! (2 + inserted_before (new_rows_to_add (scan_result two_runs_df)) 2))
       = without_rewritten_fields (two_runs_df ! 2)
   \<and> process_drilling_data two_runs_df
         ! (fst (new_rows_to_add (scan_result two_runs_df) ! 0) + 0 + 1)
       = snd (new_rows_to_add (scan_result two_runs_df) ! 0)
   \<and> ((\<exists>k<length two_runs_df.
          5 = k + inserted_before (new_rows_to_add (scan_result two_runs_df)) k)
        \<or> (\<exists>j<length (new_rows_to_add (scan_result two_runs_df)).
          5 = fst (new_rows_to_add (scan_result two_runs_df) ! j) + j + 1))"
proof -
  have n: "length (new_rows_to_add (scan_result two_runs_df)) = 2" by code_simp
  have d: "length two_runs_df = 4" by code_simp
  have p: "map (\<lambda>k. k + inserted_before (new_rows_to_add (scan_result two_runs_df)) k)
             [0, 1, 2, 3] = [0, 1, 3, 4]"
    by code_simp
  note t = input_rows_kept_in_order [of two_runs_df, unfolded Let_def]
  from t have len: "length (process_drilling_data two_runs_df) = length two_runs_df + 2"
    unfolding n by blast
  from t have "\<forall>k<length two_runs_df.
      without_rewritten_fields (process_drilling_data two_runs_df
         ! (k + inserted_before (new_rows_to_add (scan_result two_runs_df)) k))
       = without_rewritten_fields (two_runs_df ! k)"
    by blast
  then have kept: "without_rewritten_fields (process_drilling_data two_runs_df
         ! (2 + inserted_before (new_rows_to_add (scan_result two_runs_df)) 2))
       = without_rewritten_fields (two_runs_df ! 2)"
    by (rule allE [of _ 2]) (simp add: d)
  from t have "\<forall>j<length (new_rows_to_add (scan_result two_runs_df)).
      process_drilling_data two_runs_df
         ! (fst (new_rows_to_add (scan_result two_runs_df) ! j) + j + 1)
       = snd (new_rows_to_add (scan_result two_runs_df) ! j)"
    by blast
  then have synth: "process_drilling_data two_runs_df
         ! (fst (new_rows_to_add (scan_result two_runs_df) ! 0) + 0 + 1)
       = snd (new_rows_to_add (scan_result two_runs_df) ! 0)"
    by (rule allE [of _ 0]) (simp add: n)
  from t have "\<forall>p<length (process_drilling_data two_runs_df).
      (\<exists>k<length two_runs_df.
          p = k + inserted_before (new_rows_to_add (scan_result two_runs_df)) k)
        \<or> (\<exists>j<length (new_rows_to_add (scan_result two_runs_df)).
          p = fst (new_rows_to_add (scan_result two_runs_df) ! j) + j + 1)"
    by blast
  with len d have cover: "(\<exists>k<length two_runs_df.
          5 = k + inserted_before (new_rows_to_add (scan_result two_runs_df)) k)
        \<or> (\<exists>j<length (new_rows_to_add (scan_result two_runs_df)).
          5 = fst (new_rows_to_add (scan_result two_runs_df) ! j) + j + 1)"
    by (elim allE [of _ 5]) simp
  from len p kept synth cover show ?thesis by (intro conjI)
qed

section \<open>Depth mapping and adjustment: results\<close>

lemma check_depth_range_defined:
  assumes "check_depth_range a t b \<noteq> Cannot_judge"
  shows "\<exists>t' b'. t = Some t' \<and> b = Some b'"
  using assms by (auto simp: check_depth_range_def split: option.splits)

lemma process_row_adjusted:
  assumes "process_row d fd r = Inr out"
  shows "\<exists>s e. in_start_depth r = Some (Numeric s) \<and> in_end_depth r = Some (Numeric e)
     \<and> out_start_in_range out =
          check_depth_range s (out_start_top_mapped out) (out_start_bottom_mapped out)
     \<and> out_end_in_range out =
          check_depth_range e (out_end_top_mapped out) (out_end_bottom_mapped out)
     \<and> (out_adjusted_start out, out_adjusted_end out) =
          adjusted_depths s e (out_start_top_mapped out) (out_start_bottom_mapped out)
            (out_end_top_mapped out) (out_end_bottom_mapped out)"
  using assms
  unfolding process_row_def and_then_def getitem_def float_of_def Let_def
  by (auto split: option.splits sum.splits csv_cell.splits)

text \<open>
  Claim C2.  A boundary judged in range or impossible to judge keeps its actual depth; a
  boundary judged too large (too small) with both mapped depths defined gets their
  maximum (minimum).  In a run whose start and end are both judged too large, the
  adjusted start is instead the midpoint of the start formation's mapped top and bottom,
  rounded to 2 decimals, and in a run whose start and end are both judged too small the
  adjusted end is the rounded midpoint of the end formation's; in every other case the
  boundary keeps the value of the first rule.  The two adjusted depths of a row that
  \<open>process_row\<close> outputs are computed in this way from the row's two depths and four
  mapped depths.
\<close>

theorem adjusted_depth_rules:
  "adjust_depth_based_on_judgment In_range a t b = a
   \<and> adjust_depth_based_on_judgment Cannot_judge a t b = a
   \<and> adjust_depth_based_on_judgment Too_large a (Some t') (Some b') = max t' b'
   \<and> adjust_depth_based_on_judgment Too_small a (Some t') (Some b') = min t' b'
   \<and> (check_depth_range s st sb = Too_large \<and> check_depth_range e et eb = Too_large \<longrightarrow>
        (\<exists>x y. st = Some x \<and> sb = Some y
           \<and> fst (adjusted_depths s e st sb et eb) = py_round ((x + y) / 2) 2))
   \<and> (\<not> (check_depth_range s st sb = Too_large \<and> check_depth_range e et eb = Too_large) \<longrightarrow>
        fst (adjusted_depths s e st sb et eb) =
          adjust_depth_based_on_judgment (check_depth_range s st sb) s st sb)
   \<and> (check_depth_range s st sb = Too_small \<and> check_depth_range e et eb = Too_small \<longrightarrow>
        (\<exists>x y. et = Some x \<and> eb = Some y
           \<and> snd (adjusted_depths s e st sb et eb) = py_round ((x + y) / 2) 2))
   \<and> (\<not> (check_depth_range s st sb = Too_small \<and> check_depth_range e et eb = Too_small) \<longrightarrow>
        snd (adjusted_depths s e st sb et eb) =
          adjust_depth_based_on_judgment (check_depth_range e et eb) e et eb)
   \<and> (process_row d fd r = Inr out \<longrightarrow>
        (\<exists>s' e'. in_start_depth r = Some (Numeric s') \<and> in_end_depth r = Some (Numeric e')
           \<and> out_start_in_range out =
                check_depth_range s' (out_start_top_mapped out) (out_start_bottom_mapped out)
           \<and> out_end_in_range out =
                check_depth_range e' (out_end_top_mapped out) (out_end_bottom_mapped out)
           \<and> (out_adjusted_start out, out_adjusted_end out) =
                adjusted_depths s' e' (out_start_top_mapped out) (out_start_bottom_mapped out)
                  (out_end_top_mapped out) (out_end_bottom_mapped out)))"
proof -
  have a: "adjust_depth_based_on_judgment In_range a t b = a"
    "adjust_depth_based_on_judgment Cannot_judge a t b = a"
    "adjust_depth_based_on_judgment Too_large a (Some t') (Some b') = max t' b'"
    "adjust_depth_based_on_judgment Too_small a (Some t') (Some b') = min t' b'"
    by (simp_all add: adjust_depth_based_on_judgment_def)
  have hi: "\<exists>x y. st = Some x \<and> sb = Some y
           \<and> fst (adjusted_depths s e st sb et eb) = py_round ((x + y) / 2) 2"
    if h: "check_depth_range s st sb = Too_large \<and> check_depth_range e et eb = Too_large"
  proof -
    from h check_depth_range_defined [of s st sb] obtain x y where "st = Some x" "sb = Some y"
      by auto
    with h show ?thesis by (simp add: adjusted_depths_def Let_def)
  qed
  have nhi: "fst (adjusted_depths s e st sb et eb) =
          adjust_depth_based_on_judgment (check_depth_range s st sb) s st sb"
    if "\<not> (check_depth_range s st sb = Too_large \<and> check_depth_range e et eb = Too_large)"
    using that by (auto simp add: adjusted_depths_def Let_def)
  have lo: "\<exists>x y. et = Some x \<and> eb = Some y
           \<and> snd (adjusted_depths s e st sb et eb) = py_round ((x + y) / 2) 2"
    if h: "check_depth_range s st sb = Too_small \<and> check_depth_range e et eb = Too_small"
  proof -
    from h check_depth_range_defined [of e et eb] obtain x y where "et = Some x" "eb = Some y"
      by auto
    with h show ?thesis by (simp add: adjusted_depths_def Let_def)
  qed
  have nlo: "snd (adjusted_depths s e st sb et eb) =
          adjust_depth_based_on_judgment (check_depth_range e et eb) e et eb"
    if "\<not> (check_depth_range s st sb = Too_small \<and> check_depth_range e et eb = Too_small)"
    using that by (auto simp add: adjusted_depths_def Let_def)
  from a hi nhi lo nlo process_row_adjusted [of d fd r out] show ?thesis by blast
qed

theorem adjusted_depth_rules_witness:
  "check_depth_range 1150 (Some 1000) (Some 1100) = Too_large
   \<and> check_depth_range 1250 (Some 1100) (Some 1200) = Too_large
   \<and> adjusted_depths 1150 1250 (Some 1000) (Some 1100) (Some 1100) (Some 1200) = (1050, 1200)
   \<and> check_depth_range 900 (Some 1000) (Some 1100) = Too_small
   \<and> check_depth_range 1050 (Some 1100) (Some 1200) = Too_small
   \<and> adjusted_depths 900 1050 (Some 1000) (Some 1100) (Some 1100) (Some 1200) = (1000, 1150)"
  using adjusted_depth_rules [of 0 None None 0 0 1150 "Some 1000" "Some 1100" 1250 "Some 1100"
      "Some 1200"]
    adjusted_depth_rules [of 0 None None 0 0 900 "Some 1000" "Some 1100" 1050 "Some 1100"
      "Some 1200"]
  by (simp add: check_depth_range_def adjust_depth_based_on_judgment_def prod_eq_iff
      py_round_def round_half_even_def Let_def)

lemma is_numeric_obtain:
  assumes "is_numeric c"
  obtains v where "c = Some (Numeric v)"
  using assms by (auto simp: is_numeric_def split: option.splits csv_cell.splits)

lemma get_info_complete:
  assumes "list_all complete_entry (map snd d)"
  shows "complete_entry (get_info d f)"
proof (cases "map_of d f")
  case None
  then show ?thesis
    by (simp add: get_info_def default_info_def complete_entry_def is_numeric_def)
next
  case (Some info)
  then have "(f, info) \<in> set d" by (rule map_of_SomeD)
  then have "info \<in> set (map snd d)" by force
  with assms have "complete_entry info" by (auto simp: list_all_iff)
  with Some show ?thesis by (simp add: get_info_def)
qed

lemma similar_formations_keys:
  assumes "similar_formations fd name = k # ks"
  shows "\<exists>info. map_of fd k = Some info"
proof -
  have "k \<in> set (similar_formations fd name)" using assms by simp
  then have "k \<in> fst ` set fd" by (auto simp: similar_formations_def)
  then show ?thesis by (metis map_of_eq_None_iff not_Some_eq)
qed

lemma calculate_mapped_depth_numeric:
  "\<exists>x. calculate_mapped_depth fd (Numeric p) name = Inr x"
proof (cases "fd = []")
  case True
  then show ?thesis by (simp add: calculate_mapped_depth_def)
next
  case False
  show ?thesis
  proof (cases "map_of fd name")
    case (Some info)
    with False show ?thesis
      by (simp add: calculate_mapped_depth_def scale_position_def and_then_def float_of_def)
  next
    case None
    show ?thesis
    proof (cases "similar_formations fd name")
      case Nil
      with None False show ?thesis by (simp add: calculate_mapped_depth_def)
    next
      case (Cons k ks)
      from similar_formations_keys [OF Cons] obtain info where "map_of fd k = Some info" ..
      with Cons None False show ?thesis
        by (simp add: calculate_mapped_depth_def scale_position_def and_then_def float_of_def)
    qed
  qed
qed

lemma process_row_well_formed:
  assumes "well_formed_row r" and "list_all complete_entry (map snd d)"
  shows "\<exists>out. process_row d fd r = Inr out"
proof -
  from assms(1) obtain seq sf ef s e where r:
    "in_seq_no r = Some seq" "in_start_formation r = Some sf" "in_end_formation r = Some ef"
    "in_start_depth r = Some (Numeric s)" "in_end_depth r = Some (Numeric e)"
    unfolding well_formed_row_def by (auto elim!: is_numeric_obtain)
  from get_info_complete [OF assms(2), of sf] obtain sp st sb where si:
    "parent (get_info d sf) = Some sp" "top_position (get_info d sf) = Some (Numeric st)"
    "bottom_position (get_info d sf) = Some (Numeric sb)"
    unfolding complete_entry_def by (auto elim!: is_numeric_obtain)
  from get_info_complete [OF assms(2), of ef] obtain ep et eb where ei:
    "parent (get_info d ef) = Some ep" "top_position (get_info d ef) = Some (Numeric et)"
    "bottom_position (get_info d ef) = Some (Numeric eb)"
    unfolding complete_entry_def by (auto elim!: is_numeric_obtain)
  obtain a where a: "calculate_mapped_depth fd (Numeric st) sp = Inr a"
    using calculate_mapped_depth_numeric by blast
  obtain b where b: "calculate_mapped_depth fd (Numeric sb) sp = Inr b"
    using calculate_mapped_depth_numeric by blast
  obtain c where c: "calculate_mapped_depth fd (Numeric et) ep = Inr c"
    using calculate_mapped_depth_numeric by blast
  obtain c' where c': "calculate_mapped_depth fd (Numeric eb) ep = Inr c'"
    using calculate_mapped_depth_numeric by blast
  show ?thesis
    unfolding process_row_def Let_def
    by (simp add: r si ei a b c c' and_then_def getitem_def float_of_def)
qed

lemma process_row_Inr_well_formed:
  assumes "process_row d fd r = Inr out"
  shows "well_formed_row r"
  using assms
  unfolding process_row_def and_then_def getitem_def float_of_def Let_def well_formed_row_def
    is_numeric_def
  by (auto split: option.splits sum.splits csv_cell.splits)

lemma process_rows_Inr_iff:
  "process_rows d fd rows = Inr outs \<longleftrightarrow> map (process_row d fd) rows = map Inr outs"
proof (induction rows arbitrary: outs)
  case Nil
  then show ?case by auto
next
  case (Cons r rs)
  show ?case
  proof (cases "process_row d fd r")
    case (Inl e)
    then show ?thesis by (cases outs) (auto simp: and_then_def)
  next
    case (Inr o1)
    show ?thesis
    proof (cases "process_rows d fd rs")
      case (Inl e)
      with Cons.IH have "\<And>os. map (process_row d fd) rs \<noteq> map Inr os" by auto
      with Inr Inl show ?thesis by (cases outs) (auto simp: and_then_def)
    next
      case os: (Inr os)
      with Cons.IH [of os] have m: "map (process_row d fd) rs = map Inr os" by simp
      show ?thesis
      proof
        assume "process_rows d fd (r # rs) = Inr outs"
        with Inr os have "outs = o1 # os" by (simp add: and_then_def)
        with Inr m show "map (process_row d fd) (r # rs) = map Inr outs" by simp
      next
        assume a: "map (process_row d fd) (r # rs) = map Inr outs"
        then obtain o' os' where o: "outs = o' # os'" by (cases outs) auto
        with a Inr have "o' = o1" "map (process_row d fd) rs = map Inr os'" by auto
        with Cons.IH [of os'] os have "os' = os" by simp
        with o \<open>o' = o1\<close> Inr os show "process_rows d fd (r # rs) = Inr outs"
          by (simp add: and_then_def)
      qed
    qed
  qed
qed

lemma calculate_mapped_depth_unknown:
  assumes "unknown_unresolved fd"
  shows "calculate_mapped_depth fd c weizhi = Inr None"
  using assms by (auto simp: unknown_unresolved_def calculate_mapped_depth_def)

lemma process_row_unknown_start:
  assumes "process_row d fd r = Inr out" and "in_start_formation r = Some f"
    and "map_of d f = None" and "unknown_unresolved fd"
  shows "out_start_parent out = weizhi \<and> out_start_top_mapped out = None
    \<and> out_start_bottom_mapped out = None \<and> out_start_in_range out = Cannot_judge
    \<and> in_start_depth r = Some (Numeric (out_adjusted_start out))"
proof -
  have info: "get_info d f = default_info" using assms(3) by (simp add: get_info_def)
  note calc = calculate_mapped_depth_unknown [OF assms(4)]
  from assms(1,2) have m: "out_start_parent out = weizhi \<and> out_start_top_mapped out = None
      \<and> out_start_bottom_mapped out = None"
    unfolding process_row_def and_then_def getitem_def float_of_def Let_def
    by (auto simp: info default_info_def calc split: option.splits sum.splits csv_cell.splits)
  from process_row_adjusted [OF assms(1)] obtain s e where a:
    "in_start_depth r = Some (Numeric s)"
    "out_start_in_range out =
       check_depth_range s (out_start_top_mapped out) (out_start_bottom_mapped out)"
    "(out_adjusted_start out, out_adjusted_end out) =
       adjusted_depths s e (out_start_top_mapped out) (out_start_bottom_mapped out)
         (out_end_top_mapped out) (out_end_bottom_mapped out)"
    by blast
  from a(2) m have j: "out_start_in_range out = Cannot_judge"
    by (simp add: check_depth_range_def)
  have "fst (adjusted_depths s e None None et eb) = s" for et eb
    by (simp add: adjusted_depths_def Let_def check_depth_range_def
        adjust_depth_based_on_judgment_def)
  with a(3) m have "out_adjusted_start out = s" by (metis fst_conv)
  with m j a(1) show ?thesis by simp
qed

lemma process_row_unknown_end:
  assumes "process_row d fd r = Inr out" and "in_end_formation r = Some f"
    and "map_of d f = None" and "unknown_unresolved fd"
  shows "out_end_parent out = weizhi \<and> out_end_top_mapped out = None
    \<and> out_end_bottom_mapped out = None \<and> out_end_in_range out = Cannot_judge
    \<and> in_end_depth r = Some (Numeric (out_adjusted_end out))"
proof -
  have info: "get_info d f = default_info" using assms(3) by (simp add: get_info_def)
  note calc = calculate_mapped_depth_unknown [OF assms(4)]
  from assms(1,2) have m: "out_end_parent out = weizhi \<and> out_end_top_mapped out = None
      \<and> out_end_bottom_mapped out = None"
    unfolding process_row_def and_then_def getitem_def float_of_def Let_def
    by (auto simp: info default_info_def calc split: option.splits sum.splits csv_cell.splits)
  from process_row_adjusted [OF assms(1)] obtain s e where a:
    "in_end_depth r = Some (Numeric e)"
    "out_end_in_range out =
       check_depth_range e (out_end_top_mapped out) (out_end_bottom_mapped out)"
    "(out_adjusted_start out, out_adjusted_end out) =
       adjusted_depths s e (out_start_top_mapped out) (out_start_bottom_mapped out)
         (out_end_top_mapped out) (out_end_bottom_mapped out)"
    by blast
  from a(2) m have j: "out_end_in_range out = Cannot_judge"
    by (simp add: check_depth_range_def)
  have "snd (adjusted_depths s e st sb None None) = e" for st sb
    by (simp add: adjusted_depths_def Let_def check_depth_range_def
        adjust_depth_based_on_judgment_def split: option.splits)
  with a(3) m have "out_adjusted_end out = e" by (metis snd_conv)
  with m j a(1) show ?thesis by simp
qed

lemma classifier_Some_iff:
  "classifier_process_drilling_data d fd rows = Some outs \<longleftrightarrow>
     map (process_row d fd) rows = map Inr outs"
  using process_rows_Inr_iff [of d fd rows outs]
  by (auto simp: classifier_process_drilling_data_def split: sum.splits)

lemma classifier_Some_nth:
  assumes "classifier_process_drilling_data d fd rows = Some outs" and "k < length rows"
  shows "length outs = length rows" and "process_row d fd (rows ! k) = Inr (outs ! k)"
proof -
  from assms(1) have m: "map (process_row d fd) rows = map Inr outs"
    by (simp add: classifier_Some_iff)
  then show l: "length outs = length rows" by (metis length_map)
  with assms(2) m show "process_row d fd (rows ! k) = Inr (outs ! k)" by (metis nth_map)
qed

lemma classifier_well_formed:
  assumes "list_all well_formed_row rows" and "list_all complete_entry (map snd d)"
  shows "\<exists>outs. classifier_process_drilling_data d fd rows = Some outs
           \<and> length outs = length rows"
proof -
  from assms have "\<forall>r\<in>set rows. \<exists>out. process_row d fd r = Inr out"
    using process_row_well_formed by (auto simp: list_all_iff)
  then obtain g where g: "\<forall>r\<in>set rows. process_row d fd r = Inr (g r)" by metis
  then have "map (process_row d fd) rows = map Inr (map g rows)" by simp
  then have "classifier_process_drilling_data d fd rows = Some (map g rows)"
    by (simp only: classifier_Some_iff)
  then show ?thesis by simp
qed

lemma classifier_malformed:
  assumes "r \<in> set rows" and "\<not> well_formed_row r"
  shows "classifier_process_drilling_data d fd rows = None"
proof (cases "classifier_process_drilling_data d fd rows")
  case None
  then show ?thesis .
next
  case (Some os)
  from assms(1) obtain j where j: "j < length rows" "rows ! j = r"
    by (auto simp: in_set_conv_nth)
  from classifier_Some_nth(2) [OF Some j(1)] j(2) have "process_row d fd r = Inr (os ! j)"
    by simp
  with assms(2) process_row_Inr_well_formed show ?thesis by blast
qed

lemma map_of_dict_a_name_x: "map_of dict_a name_x = None"
  by (simp add: dict_a_def name_a_def name_x_def)

lemma remove_all_duan_weizhi: "remove_all duan weizhi = weizhi"
  by (simp add: remove_all.simps duan_def weizhi_def)

lemma strip_subsegment_p1: "strip_subsegment name_p1 = [80]"
  by (simp add: strip_subsegment_def remove_all.simps yaduan_def name_p1_def)

lemma unknown_unresolved_fd_p1: "unknown_unresolved fd_p1"
  by (simp add: unknown_unresolved_def fd_p1_def similar_formations_def remove_all_duan_weizhi
      strip_subsegment_p1)
    (simp add: weizhi_def name_p1_def)

text \<open>
  Claim C4, as the code has it for the Depth Mapping stage.  The loop over the rows runs
  inside one \<open>try\<close> (line 155), whose \<open>except\<close> (line 269) makes the stage return
  \<open>False\<close> before anything is written.  So: when every row is well formed and every
  dictionary entry complete, the stage returns one output row per input row; when some
  row is malformed (a column missing or a depth that is not a number), the stage returns
  no rows at all, whatever the other rows are; a row whose start (or end) formation the
  dictionary lacks is handled inside the row, when the depth table does not resolve the
  default category: the output row carries the category \<open>weizhi\<close>, no mapped depths,
  the judgment \<open>Cannot_judge\<close> and the actual depth as adjusted depth.
\<close>

theorem depth_mapping_failure_semantics:
  "(list_all well_formed_row rows \<and> list_all complete_entry (map snd d) \<longrightarrow>
      (\<exists>outs. classifier_process_drilling_data d fd rows = Some outs
         \<and> length outs = length rows))
   \<and> ((\<exists>r\<in>set rows. \<not> well_formed_row r) \<longrightarrow>
        classifier_process_drilling_data d fd rows = None)
   \<and> (classifier_process_drilling_data d fd rows = Some outs \<and> k < length rows
        \<and> in_start_formation (rows ! k) = Some f \<and> map_of d f = None
        \<and> unknown_unresolved fd \<longrightarrow>
        out_start_parent (outs ! k) = weizhi \<and> out_start_top_mapped (outs ! k) = None
        \<and> out_start_bottom_mapped (outs ! k) = None
        \<and> out_start_in_range (outs ! k) = Cannot_judge
        \<and> in_start_depth (rows ! k) = Some (Numeric (out_adjusted_start (outs ! k))))
   \<and> (classifier_process_drilling_data d fd rows = Some outs \<and> k < length rows
        \<and> in_end_formation (rows ! k) = Some f \<and> map_of d f = None
        \<and> unknown_unresolved fd \<longrightarrow>
        out_end_parent (outs ! k) = weizhi \<and> out_end_top_mapped (outs ! k) = None
        \<and> out_end_bottom_mapped (outs ! k) = None
        \<and> out_end_in_range (outs ! k) = Cannot_judge
        \<and> in_end_depth (rows ! k) = Some (Numeric (out_adjusted_end (outs ! k))))"
proof -
  have c1: "list_all well_formed_row rows \<and> list_all complete_entry (map snd d) \<longrightarrow>
      (\<exists>outs. classifier_process_drilling_data d fd rows = Some outs
         \<and> length outs = length rows)"
    using classifier_well_formed [of rows d fd] by blast
  have c2: "(\<exists>r\<in>set rows. \<not> well_formed_row r) \<longrightarrow>
        classifier_process_drilling_data d fd rows = None"
    using classifier_malformed [of _ rows d fd] by blast
  have c3: "classifier_process_drilling_data d fd rows = Some outs \<and> k < length rows
        \<and> in_start_formation (rows ! k) = Some f \<and> map_of d f = None
        \<and> unknown_unresolved fd \<longrightarrow>
        out_start_parent (outs ! k) = weizhi \<and> out_start_top_mapped (outs ! k) = None
        \<and> out_start_bottom_mapped (outs ! k) = None
        \<and> out_start_in_range (outs ! k) = Cannot_judge
        \<and> in_start_depth (rows ! k) = Some (Numeric (out_adjusted_start (outs ! k)))"
    using classifier_Some_nth(2) [of d fd rows outs k]
      process_row_unknown_start [of d fd "rows ! k" "outs ! k" f] by blast
  have c4: "classifier_process_drilling_data d fd rows = Some outs \<and> k < length rows
        \<and> in_end_formation (rows ! k) = Some f \<and> map_of d f = None
        \<and> unknown_unresolved fd \<longrightarrow>
        out_end_parent (outs ! k) = weizhi \<and> out_end_top_mapped (outs ! k) = None
        \<and> out_end_bottom_mapped (outs ! k) = None
        \<and> out_end_in_range (outs ! k) = Cannot_judge
        \<and> in_end_depth (rows ! k) = Some (Numeric (out_adjusted_end (outs ! k)))"
    using classifier_Some_nth(2) [of d fd rows outs k]
      process_row_unknown_end [of d fd "rows ! k" "outs ! k" f] by blast
  from c1 c2 c3 c4 show ?thesis by (intro conjI)
qed

theorem depth_mapping_failure_semantics_witness:
  "list_all well_formed_row [good_row, unknown_row]
   \<and> list_all complete_entry (map snd dict_a)
   \<and> (\<exists>r\<in>set [good_row, bad_row]. \<not> well_formed_row r)
   \<and> in_start_formation ([good_row, unknown_row] ! 1) = Some name_x
   \<and> map_of dict_a name_x = None \<and> unknown_unresolved fd_p1
   \<and> classifier_process_drilling_data dict_a fd_p1 [good_row, bad_row] = None
   \<and> (\<exists>outs. classifier_process_drilling_data dict_a fd_p1 [good_row, unknown_row] = Some outs
        \<and> length outs = 2
        \<and> out_start_parent (outs ! 1) = weizhi \<and> out_start_top_mapped (outs ! 1) = None
        \<and> out_start_in_range (outs ! 1) = Cannot_judge \<and> out_adjusted_start (outs ! 1) = 1010)"
proof -
  have wf: "list_all well_formed_row [good_row, unknown_row]"
    and ce: "list_all complete_entry (map snd dict_a)"
    by (simp_all add: good_row_def unknown_row_def well_formed_row_def
        is_numeric_def complete_entry_def dict_a_def)
  have bad: "\<exists>r\<in>set [good_row, bad_row]. \<not> well_formed_row r"
    by (simp add: good_row_def bad_row_def well_formed_row_def is_numeric_def)
  have row: "(1::nat) < length [good_row, unknown_row]"
    "in_start_formation ([good_row, unknown_row] ! 1) = Some name_x"
    "in_start_depth ([good_row, unknown_row] ! 1) = Some (Numeric 1010)"
    by (simp_all add: good_row_def unknown_row_def)
  note t1 = depth_mapping_failure_semantics [of "[good_row, bad_row]" dict_a fd_p1 "[]" 0 "[]"]
  from t1 bad
  have 1: "classifier_process_drilling_data dict_a fd_p1 [good_row, bad_row] = None" by blast
  note t2 = depth_mapping_failure_semantics [of "[good_row, unknown_row]" dict_a fd_p1 "[]" 0 "[]"]
  from t2 wf ce
  have "\<exists>outs. classifier_process_drilling_data dict_a fd_p1 [good_row, unknown_row] = Some outs
      \<and> length outs = length [good_row, unknown_row]" by blast
  then obtain outs where o:
    "classifier_process_drilling_data dict_a fd_p1 [good_row, unknown_row] = Some outs"
    "length outs = length [good_row, unknown_row]" by blast
  note t3 = depth_mapping_failure_semantics
    [of "[good_row, unknown_row]" dict_a fd_p1 outs 1 name_x]
  from t3 o(1) row(1,2) unknown_unresolved_fd_p1 map_of_dict_a_name_x
  have 2: "out_start_parent (outs ! 1) = weizhi \<and> out_start_top_mapped (outs ! 1) = None
      \<and> out_start_bottom_mapped (outs ! 1) = None
      \<and> out_start_in_range (outs ! 1) = Cannot_judge
      \<and> in_start_depth ([good_row, unknown_row] ! 1) = Some (Numeric (out_adjusted_start (outs ! 1)))"
    by blast
  with row(3) have 3: "out_adjusted_start (outs ! 1) = 1010" by simp
  from o(2) have 4: "length outs = 2" by simp
  from o(1) 4 2 3 have 5: "\<exists>outs.
      classifier_process_drilling_data dict_a fd_p1 [good_row, unknown_row] = Some outs
        \<and> length outs = 2
        \<and> out_start_parent (outs ! 1) = weizhi \<and> out_start_top_mapped (outs ! 1) = None
        \<and> out_start_in_range (outs ! 1) = Cannot_judge \<and> out_adjusted_start (outs ! 1) = 1010"
    by blast
  from wf ce bad row(2) map_of_dict_a_name_x unknown_unresolved_fd_p1 1 5
  show ?thesis by (intro conjI)
qed

text \<open>
  Claim C4 as stated fails: a well-formed row alone is mapped, but followed by a row
  whose start depth is the text \<open>abc\<close> the stage returns no rows, not even the one of
  the well-formed row.
\<close>

theorem malformed_row_counterexample:
  "well_formed_row good_row
   \<and> in_start_depth bad_row = Some (NonNumeric [97, 98, 99])
   \<and> classifier_process_drilling_data dict_a fd_p1 [good_row] \<noteq> None
   \<and> classifier_process_drilling_data dict_a fd_p1 [good_row, bad_row] = None"
proof -
  have g: "well_formed_row good_row"
    by (simp add: good_row_def well_formed_row_def is_numeric_def)
  have b: "\<not> well_formed_row bad_row"
    and c: "in_start_depth bad_row = Some (NonNumeric [97, 98, 99])"
    by (simp_all add: good_row_def bad_row_def well_formed_row_def is_numeric_def)
  have d: "list_all complete_entry (map snd dict_a)"
    by (simp add: complete_entry_def is_numeric_def dict_a_def)
  from g d classifier_well_formed [of "[good_row]" dict_a fd_p1]
  have 1: "classifier_process_drilling_data dict_a fd_p1 [good_row] \<noteq> None" by auto
  from b classifier_malformed [of bad_row "[good_row, bad_row]" dict_a fd_p1]
  have 2: "classifier_process_drilling_data dict_a fd_p1 [good_row, bad_row] = None" by simp
  from g c 1 2 show ?thesis by (intro conjI)
qed

section \<open>Confidence scoring: results\<close>

lemma overlap_within_well:
  assumes "overlap_start w c \<le> overlap_end w c"
  shows "0 \<le> overlap_end w c - overlap_start w c"
    and "overlap_end w c - overlap_start w c \<le> total_length w"
  using assms
  by (auto simp: overlap_start_def overlap_end_def well_start_def well_end_def total_length_def)

lemma category_rows_confidence_bounds:
  assumes "r \<in> set (category_rows w c)"
  shows "0 \<le> confidence r \<and> confidence r \<le> 1"
proof -
  from assms have ov: "overlap_start w c \<le> overlap_end w c"
    by (auto simp: category_rows_def split: if_splits)
  define x where "x = (if total_length w = 0 then 1
                       else \<bar>overlap_end w c - overlap_start w c\<bar> / total_length w)"
  from assms ov have r: "confidence r = py_round x 6"
    by (simp add: category_rows_def Let_def x_def)
  have tl: "0 \<le> total_length w" by (simp add: total_length_def)
  have "0 \<le> x \<and> x \<le> 1"
  proof (cases "total_length w = 0")
    case True
    then show ?thesis by (simp add: x_def)
  next
    case False
    with tl have p: "0 < total_length w" by simp
    from overlap_within_well [OF ov]
    have "0 \<le> \<bar>overlap_end w c - overlap_start w c\<bar>"
      "\<bar>overlap_end w c - overlap_start w c\<bar> \<le> total_length w" by simp_all
    with p False show ?thesis by (simp add: x_def)
  qed
  then have "py_round 0 6 \<le> py_round x 6" "py_round x 6 \<le> py_round 1 6"
    by (simp_all add: py_round_mono)
  then show ?thesis by (simp add: r py_round_numerals)
qed

text \<open>
  Claim C3, as the code has it.  A row for a run and a category is emitted exactly when
  \<open>overlap_start \<le> overlap_end\<close>, that is when the two intervals meet, be it in a
  single depth; its confidence is the overlap length divided by the run length, rounded
  to 6 decimals, or 1 when the run length is zero; and every emitted confidence lies in
  the closed interval from 0 to 1.
\<close>

theorem confidence_rows_characterisation:
  "(r \<in> set (calculate_confidence categories well_data) \<longleftrightarrow>
      (\<exists>w\<in>set well_data. \<exists>c\<in>set categories.
          overlap_start w c \<le> overlap_end w c
          \<and> r = \<lparr>conf_seq_no = well_seq_no w, conf_category = category c,
                  confidence = py_round (if total_length w = 0 then 1
                     else (overlap_end w c - overlap_start w c) / total_length w) 6\<rparr>))
   \<and> (r \<in> set (calculate_confidence categories well_data) \<longrightarrow>
        0 \<le> confidence r \<and> confidence r \<le> 1)"
proof -
  have mem: "r \<in> set (calculate_confidence categories well_data) \<longleftrightarrow>
      (\<exists>w\<in>set well_data. \<exists>c\<in>set categories. r \<in> set (category_rows w c))"
    by (auto simp: calculate_confidence_def)
  have one: "r \<in> set (category_rows w c) \<longleftrightarrow>
      overlap_start w c \<le> overlap_end w c
      \<and> r = \<lparr>conf_seq_no = well_seq_no w, conf_category = category c,
              confidence = py_round (if total_length w = 0 then 1
                 else (overlap_end w c - overlap_start w c) / total_length w) 6\<rparr>" for w c
    by (auto simp: category_rows_def Let_def)
  have bounds: "r \<in> set (calculate_confidence categories well_data) \<longrightarrow>
        0 \<le> confidence r \<and> confidence r \<le> 1"
    using category_rows_confidence_bounds unfolding mem by blast
  show ?thesis using bounds unfolding mem one by blast
qed

theorem confidence_rows_characterisation_witness:
  "\<lparr>conf_seq_no = SeqNum 1, conf_category = [80, 49], confidence = 1 / 2\<rparr>
     \<in> set (calculate_confidence [cat_p1] [well_d])
   \<and> (0::rat) \<le> 1 / 2 \<and> (1 / 2 :: rat) \<le> 1"
  using confidence_rows_characterisation
    [of "\<lparr>conf_seq_no = SeqNum 1, conf_category = [80, 49], confidence = 1 / 2\<rparr>"
        "[cat_p1]" "[well_d]"]
  by (simp add: cat_p1_def well_d_def overlap_start_def overlap_end_def well_start_def
      well_end_def total_length_def py_round_def round_half_even_def Let_def)

text \<open>
  Claim C3 as stated fails: the run from 900 to 1000 and the category from 1000 to 1100
  have an overlap of length zero, yet a row is emitted, with confidence 0, which is not
  in \<open>(0,1]\<close>.
\<close>

theorem zero_confidence_counterexample:
  "overlap_end well_touching cat_p1 - overlap_start well_touching cat_p1 = 0
   \<and> calculate_confidence [cat_p1] [well_touching] =
       [\<lparr>conf_seq_no = SeqNum 2, conf_category = [80, 49], confidence = 0\<rparr>]"
  by (simp add: calculate_confidence_def category_rows_def cat_p1_def well_touching_def
      overlap_start_def overlap_end_def well_start_def well_end_def total_length_def
      py_round_def round_half_even_def Let_def)

section \<open>Dictionary validation: results\<close>






lemma collect_errors_returns:
  assumes "\<And>x. x \<in> set xs \<Longrightarrow> \<exists>errors. f x = Inr errors"
  shows "\<exists>errors. collect_errors f xs = Inr errors"
  using assms
proof (induction xs)
  case Nil
  then show ?case by simp
next
  case (Cons x xs)
  then obtain e1 e2 where "f x = Inr e1" "collect_errors f xs = Inr e2"
    by (metis list.set_intros(1,2))
  then show ?case by (simp add: and_then_def)
qed

lemma collect_errors_raises:
  assumes "collect_errors f xs = Inl e"
  shows "\<exists>x\<in>set xs. f x = Inl e"
  using assms
proof (induction xs)
  case Nil
  then show ?case by simp
next
  case (Cons x xs)
  then show ?case by (auto simp: and_then_def split: sum.splits)
qed

lemma field_errors_raises:
  "field_errors formation details field = Inl e \<Longrightarrow>
     e = TypeError \<and> position_of field details = Some Null_value"
  by (auto simp: field_errors_def split: option.splits csv_cell.splits)

lemma range_errors_raises:
  assumes "range_errors json_data formation = Inl e"
  shows "e = TypeError \<and> (\<exists>details. map_of json_data formation = Some details
           \<and> (top_position details = Some Null_value \<or> bottom_position details = Some Null_value))"
proof -
  from assms obtain details where d: "map_of json_data formation = Some details"
    "collect_errors (field_errors formation details) [Top_position, Bottom_position] = Inl e"
    by (auto simp: range_errors_def split: option.splits)
  from collect_errors_raises [OF d(2)] obtain field where
    "field_errors formation details field = Inl e" by blast
  from field_errors_raises [OF this] d(1) show ?thesis
    by (cases field) (auto simp: position_of_def)
qed

lemma range_errors_returns:
  assumes "no_null_position json_data datatest_formations"
    and "formation \<in> set datatest_formations"
  shows "\<exists>errors. range_errors json_data formation = Inr errors"
proof (cases "range_errors json_data formation")
  case (Inl e)
  from range_errors_raises [OF Inl] have
    "\<not> (case map_of json_data formation of None \<Rightarrow> True
        | Some details \<Rightarrow> top_position details \<noteq> Some Null_value
            \<and> bottom_position details \<noteq> Some Null_value)"
    by auto
  with assms show ?thesis
    unfolding no_null_position_def list_all_iff by blast
next
  case (Inr errors)
  then show ?thesis by blast
qed




end
